theory Spec2Isabelle
  imports Complex_Main "HOL-Library.Char_ord" "HOL-Library.List_Lexorder"
begin

section \<open>Python preliminaries\<close>

text \<open>
  Exceptions are values: a function that can raise returns \<open>py_error + 'a\<close>, with
  \<open>Inl\<close> the exception.
\<close>

datatype py_error = ValueError string | AttributeError string

text \<open>
  A Python value as far as \<open>isinstance(label, str)\<close> can tell values apart.
\<close>

datatype py_value = PyStr string | PyInt int | PyBool bool | PyNone

subsection \<open>Strings\<close>

text \<open>
  A string is a list of characters with code points below 256 (the Latin-1 range);
  text with other code points is outside the model. \<open>py_isspace\<close> is
  \<open>str.isspace\<close> on one character of that range, which decides what
  \<open>str.strip()\<close> removes: the ASCII whitespace and separators, U+0085 and U+00A0.
  \<open>py_lower_char\<close> is \<open>str.lower()\<close> on one character of that range: the
  capitals A to Z and U+00C0 to U+00DE except the multiplication sign U+00D7 move
  up by 32.
\<close>

definition py_isspace :: "char \<Rightarrow> bool" where
  "py_isspace c = (c \<in> set [CHR 0x09, CHR 0x0A, CHR 0x0B, CHR 0x0C, CHR 0x0D,
                              CHR 0x1C, CHR 0x1D, CHR 0x1E, CHR 0x1F, CHR 0x20,
                              CHR 0x85, CHR 0xA0])"

definition py_strip :: "string \<Rightarrow> string" where
  "py_strip s = rev (dropWhile py_isspace (rev (dropWhile py_isspace s)))"

definition py_lower_char :: "char \<Rightarrow> char" where
  "py_lower_char c =
     (if (CHR ''A'' \<le> c \<and> c \<le> CHR ''Z'') \<or> (CHR 0xC0 \<le> c \<and> c \<le> CHR 0xDE \<and> c \<noteq> CHR 0xD7)
      then char_of (of_char c + (32::nat)) else c)"

definition py_lower :: "string \<Rightarrow> string" where
  "py_lower s = map py_lower_char s"

text \<open>\<open>s.split(sep)\<close> for a one-character separator: never an empty list.\<close>

fun py_split :: "char \<Rightarrow> string \<Rightarrow> string list" where
  "py_split sep [] = [[]]"
| "py_split sep (c # cs) =
     (if c = sep then [] # py_split sep cs
      else (case py_split sep cs of
              [] \<Rightarrow> [[c]]
            | w # ws \<Rightarrow> (c # w) # ws))"

text \<open>
  \<open>s.split(sep, 1)\<close> unpacked into two names, for a string that contains \<open>sep\<close>:
  the text before the first separator and the text after it.
\<close>

definition py_split_once :: "char \<Rightarrow> string \<Rightarrow> string \<times> string" where
  "py_split_once sep s =
     (takeWhile (\<lambda>c. c \<noteq> sep) s, drop 1 (dropWhile (\<lambda>c. c \<noteq> sep) s))"

text \<open>The slice \<open>s[a:b]\<close> for \<open>0 \<le> a\<close>, \<open>0 \<le> b\<close>.\<close>

definition py_slice :: "nat \<Rightarrow> nat \<Rightarrow> 'a list \<Rightarrow> 'a list" where
  "py_slice a b xs = take (b - a) (drop a xs)"

text \<open>The slice \<open>xs[:n]\<close> for any integer \<open>n\<close>: a negative \<open>n\<close> counts from the end.\<close>

definition py_slice_to :: "int \<Rightarrow> 'a list \<Rightarrow> 'a list" where
  "py_slice_to n xs =
     (if 0 \<le> n then take (nat n) xs else take (length xs - nat (- n)) xs)"

subsection \<open>Sorting\<close>

text \<open>
  \<open>sorted(xs, key=f)\<close> is stable, and \<open>reverse=True\<close> keeps the original order of
  elements with equal keys.
\<close>

definition py_sorted_desc :: "('a \<Rightarrow> 'k::linorder) \<Rightarrow> 'a list \<Rightarrow> 'a list" where
  "py_sorted_desc f xs = rev (sort_key f (rev xs))"

text \<open>\<open>sorted(set(xs))\<close>: the distinct elements in ascending order.\<close>

definition py_sorted_set :: "'a::linorder list \<Rightarrow> 'a list" where
  "py_sorted_set xs = sort (remdups xs)"

subsection \<open>Dictionaries\<close>

text \<open>
  A \<open>dict\<close> keeps its keys in insertion order; assigning to a key that is present
  replaces the value and keeps the key's place.
\<close>

type_synonym ('k, 'v) dict = "('k \<times> 'v) list"

fun dict_set :: "('k, 'v) dict \<Rightarrow> 'k \<Rightarrow> 'v \<Rightarrow> ('k, 'v) dict" where
  "dict_set [] k v = [(k, v)]"
| "dict_set ((k', v') # d) k v =
     (if k' = k then (k', v) # d else (k', v') # dict_set d k v)"

definition dict_get :: "('k, 'v) dict \<Rightarrow> 'k \<Rightarrow> 'v option" where
  "dict_get d k = map_of d k"

definition dict_keys :: "('k, 'v) dict \<Rightarrow> 'k list" where
  "dict_keys d = map fst d"

definition dict_values :: "('k, 'v) dict \<Rightarrow> 'v list" where
  "dict_values d = map snd d"

text \<open>The comprehension \<open>{k: v for (k, v) in ps}\<close>: later pairs overwrite earlier ones.\<close>

definition dict_of_pairs :: "('k \<times> 'v) list \<Rightarrow> ('k, 'v) dict" where
  "dict_of_pairs ps = foldl (\<lambda>d (k, v). dict_set d k v) [] ps"

text \<open>The label map of a list of labels: \<open>{normalizer(label): label for label in ls}\<close>.\<close>

definition make_label_dict :: "(string \<Rightarrow> string) \<Rightarrow> string list \<Rightarrow> (string, string) dict" where
  "make_label_dict nz ls = dict_of_pairs (map (\<lambda>label. (nz label, label)) ls)"

section \<open>Entity linking: the candidate selector\<close>

text \<open>
  \<open>candidate_selector.py\<close>. A knowledge-base candidate exposes \<open>entity_\<close> and
  \<open>prior_prob\<close>; the selector returns \<open>Entity(id, description)\<close> values.
\<close>

record candidate =
  cand_entity :: string
  prior_prob :: real

record entity =
  entity_id :: string
  description :: string

text \<open>
  Modelled from the spec: the reserved NIL identifier (\<open>EntityLinker.NIL\<close>) and the
  fixed placeholder description (\<open>UNAVAILABLE_ENTITY_DESC\<close>) are constants defined
  outside the sources; no theorem depends on their values.
\<close>

definition NIL :: string where
  "NIL = ''NIL''"

definition UNAVAILABLE_ENTITY_DESC :: string where
  "UNAVAILABLE_ENTITY_DESC = ''This entity does not have a description.''"

text \<open>
  The selector's state after \<open>__init__\<close>: the knowledge base's batch lookup (an
  external collaborator), the description table and \<open>top_n\<close>.
\<close>

record 'm pipeline_candidate_selector =
  get_candidates_batch :: "'m list \<Rightarrow> candidate list list"
  descs :: "string \<rightharpoonup> string"
  top_n :: int

text \<open>
  \<open>get_entity_description\<close>: \<open>self._descs.get(entity_id, UNAVAILABLE_ENTITY_DESC)\<close>.
  The warning it emits for a missing id is \<open>get_entity_description_warns\<close>.
\<close>

definition get_entity_description :: "'m pipeline_candidate_selector \<Rightarrow> string \<Rightarrow> string" where
  "get_entity_description sel eid =
     (case descs sel eid of None \<Rightarrow> UNAVAILABLE_ENTITY_DESC | Some d \<Rightarrow> d)"

definition get_entity_description_warns :: "'m pipeline_candidate_selector \<Rightarrow> string \<Rightarrow> bool" where
  "get_entity_description_warns sel eid = (descs sel eid = None)"

definition nil_entity :: entity where
  "nil_entity = \<lparr>entity_id = NIL, description = UNAVAILABLE_ENTITY_DESC\<rparr>"

definition entities_of_cands :: "'m pipeline_candidate_selector \<Rightarrow> candidate list \<Rightarrow> entity list" where
  "entities_of_cands sel cands =
     (if length cands > 0
      then map (\<lambda>cand. \<lparr>entity_id = cand_entity cand,
                         description = get_entity_description sel (cand_entity cand)\<rparr>)
               (py_slice_to (top_n sel) cands)
      else [nil_entity])"

text \<open>
  \<open>PipelineCandidateSelector.__call__\<close>: each candidate list is sorted in place,
  descending by prior probability, then cut to \<open>top_n\<close> or replaced by the sentinel.
\<close>

definition selector_call :: "'m pipeline_candidate_selector \<Rightarrow> 'm list \<Rightarrow> entity list list" where
  "selector_call sel mentions =
     (let all_cands = map (py_sorted_desc prior_prob) (get_candidates_batch sel mentions)
      in map (entities_of_cands sel) all_cands)"

section \<open>Named entity recognition\<close>

text \<open>
  \<open>ner.py\<close>. A document owns its text, its entity spans and its named extension
  fields (\<open>doc._.name\<close>). A span is a range of tokens with a label.
\<close>

record span =
  span_start :: nat
  span_end :: nat
  span_label :: string

record 's doc =
  doc_text :: string
  ents :: "span list"
  extensions :: "string \<rightharpoonup> 's"

text \<open>
  The tokenizer, the phrase matcher and \<open>Doc.char_span\<close> belong to the spaCy
  library and are parameters. \<open>phrase_matcher lang case_sensitive substrings text\<close>
  stands for lines 29 to 35 of \<open>find_substrings\<close>: the matches of the patterns in
  the tokenized text, as \<open>(start_char, end_char)\<close> in the matcher's order.
  \<open>char_span doc start end alignment_mode\<close> is the token range of the span, or
  \<open>None\<close>.
\<close>

record 's spacy =
  phrase_matcher :: "string \<Rightarrow> bool \<Rightarrow> string list \<Rightarrow> string \<Rightarrow> (nat \<times> nat) list"
  char_span :: "'s doc \<Rightarrow> nat \<Rightarrow> nat \<Rightarrow> string \<Rightarrow> (nat \<times> nat) option"

text \<open>
  The text a match is compared by in \<open>_filter_first_hit\<close>: the text of the span,
  lowered unless matching is case sensitive.
\<close>

definition match_text :: "bool \<Rightarrow> string \<Rightarrow> nat \<times> nat \<Rightarrow> string" where
  "match_text case_sensitive text m =
     (let span_text = py_slice (fst m) (snd m) text
      in if \<not> case_sensitive then py_lower span_text else span_text)"

text \<open>The loop of \<open>_filter_first_hit\<close>, with its two accumulators.\<close>

fun filter_first_hit ::
  "bool \<Rightarrow> string \<Rightarrow> string list \<Rightarrow> (nat \<times> nat) list \<Rightarrow> (nat \<times> nat) list \<Rightarrow> (nat \<times> nat) list" where
  "filter_first_hit case_sensitive text seen_spans filtered [] = filtered"
| "filter_first_hit case_sensitive text seen_spans filtered (m # matches) =
     (let span_text = match_text case_sensitive text m
      in if span_text \<notin> set seen_spans
         then filter_first_hit case_sensitive text (seen_spans @ [span_text])
                (filtered @ [(fst m, snd m)]) matches
         else filter_first_hit case_sensitive text seen_spans filtered matches)"

definition find_substrings ::
  "'s spacy \<Rightarrow> string \<Rightarrow> string list \<Rightarrow> string \<Rightarrow> bool \<Rightarrow> bool \<Rightarrow> (nat \<times> nat) list" where
  "find_substrings env text substrings lang case_sensitive single_match =
     (let matches = phrase_matcher env lang case_sensitive substrings text
      in if single_match
         then filter_first_hit case_sensitive text [] [] matches
         else map (\<lambda>m. (fst m, snd m)) matches)"

text \<open>
  The first-occurrence filter in the words of the specification: a match is retained
  exactly when no earlier match has the same normalized text.
\<close>

definition first_seen_spec :: "('a \<Rightarrow> 'k) \<Rightarrow> 'a list \<Rightarrow> 'a list" where
  "first_seen_spec key xs =
     map snd (filter (\<lambda>(i, x). key x \<notin> key ` set (take i xs)) (enumerate 0 xs))"

subsection \<open>Overlap resolution\<close>

definition span_len :: "span \<Rightarrow> nat" where
  "span_len s = span_end s - span_start s"

text \<open>Two spans overlap when they share a token.\<close>

definition overlaps :: "span \<Rightarrow> span \<Rightarrow> bool" where
  "overlaps a b = (max (span_start a) (span_start b) < min (span_end a) (span_end b))"

text \<open>
  Modelled from the spec: \<open>filter_spans\<close> is a function of the spaCy library and is
  not in the sources. The specification's policy: greedy longest-span-first
  acceptance; equal lengths in original discovery order; a span overlapping an
  already-accepted span is discarded.
\<close>

fun accept_spans :: "span list \<Rightarrow> span list \<Rightarrow> span list" where
  "accept_spans accepted [] = accepted"
| "accept_spans accepted (s # ss) =
     (if list_ex (overlaps s) accepted then accept_spans accepted ss
      else accept_spans (accepted @ [s]) ss)"

definition filter_spans :: "span list \<Rightarrow> span list" where
  "filter_spans spans = accept_spans [] (py_sorted_desc span_len spans)"

subsection \<open>The NER task\<close>

text \<open>
  Modelled from the spec: \<open>lowercase_normalizer\<close> comes from the registry module,
  which is not in the sources; the default normalizer is a case fold.
\<close>

definition lowercase_normalizer :: "string \<Rightarrow> string" where
  "lowercase_normalizer s = py_lower s"

record 'e ner_task =
  ner_normalizer :: "string \<Rightarrow> string"
  ner_label_dict :: "(string, string) dict"
  ner_examples :: "'e list option"
  alignment_mode :: string
  lang :: string
  case_sensitive_matching :: bool
  single_match :: bool

definition validate_alignment :: "string \<Rightarrow> py_error + unit" where
  "validate_alignment mode =
     (if mode \<in> set [''strict'', ''contract'', ''expand''] then Inr ()
      else Inl (ValueError (''Unsupported alignment mode '' @ mode)))"

text \<open>\<open>NERTask.__init__\<close>: the labels are a comma-separated string.\<close>

definition NERTask_init ::
  "string \<Rightarrow> 'e list option \<Rightarrow> (string \<Rightarrow> string) option \<Rightarrow> string \<Rightarrow> string \<Rightarrow> bool \<Rightarrow> bool
     \<Rightarrow> py_error + 'e ner_task" where
  "NERTask_init labels examples normalizer mode lng case_sensitive single =
     (let nz = (case normalizer of None \<Rightarrow> lowercase_normalizer | Some f \<Rightarrow> f);
          ld = make_label_dict nz (py_split CHR '','' labels)
      in case validate_alignment mode of
           Inl e \<Rightarrow> Inl e
         | Inr _ \<Rightarrow> Inr \<lparr>ner_normalizer = nz, ner_label_dict = ld, ner_examples = examples,
                          alignment_mode = mode, lang = lng,
                          case_sensitive_matching = case_sensitive, single_match = single\<rparr>)"

text \<open>One line of a response, as the body of the loop of \<open>_format_response\<close>.\<close>

definition format_line :: "'e ner_task \<Rightarrow> string \<Rightarrow> (string \<times> string list) list" where
  "format_line t line =
     (if line \<noteq> [] \<and> CHR '':'' \<in> set line
      then (let (label, phrases) = py_split_once CHR '':'' line;
                norm_label = ner_normalizer t label
            in case dict_get (ner_label_dict t) norm_label of
                 None \<Rightarrow> []
               | Some canonical \<Rightarrow>
                   if py_strip phrases \<noteq> []
                   then [(canonical, map py_strip (py_split CHR '','' (py_strip phrases)))]
                   else [])
      else [])"

definition format_response :: "'e ner_task \<Rightarrow> string \<Rightarrow> (string \<times> string list) list" where
  "format_response t response =
     concat (map (format_line t) (py_split CHR 0x0A (py_strip response)))"

text \<open>
  The spans collected for one document before overlap resolution: those of each
  label with its phrases, of each line of the response, and of the whole response.
\<close>

definition label_spans :: "'s spacy \<Rightarrow> 'e ner_task \<Rightarrow> 's doc \<Rightarrow> string \<times> string list \<Rightarrow> span list" where
  "label_spans env t d lp =
     (let offsets = find_substrings env (doc_text d) (snd lp) (lang t)
                      (case_sensitive_matching t) (single_match t)
      in List.map_filter
           (\<lambda>(start, end).
              map_option (\<lambda>(a, b). \<lparr>span_start = a, span_end = b, span_label = fst lp\<rparr>)
                (char_span env d start end (alignment_mode t)))
           offsets)"


definition response_spans :: "'s spacy \<Rightarrow> 'e ner_task \<Rightarrow> 's doc \<Rightarrow> string \<Rightarrow> span list" where
  "response_spans env t d prompt_response =
     concat (map (label_spans env t d) (format_response t prompt_response))"

definition set_ents :: "'s doc \<Rightarrow> span list \<Rightarrow> 's doc" where
  "set_ents d spans = d\<lparr>ents := spans\<rparr>"

definition parse_doc :: "'s spacy \<Rightarrow> 'e ner_task \<Rightarrow> 's doc \<Rightarrow> string \<Rightarrow> 's doc" where
  "parse_doc env t d prompt_response = set_ents d (filter_spans (response_spans env t d prompt_response))"

text \<open>
  \<open>NERTask.parse_responses\<close>: the loop runs over \<open>zip(docs, responses)\<close>; nothing in
  it raises, so the result is always \<open>Inr\<close>.
\<close>

definition NER_parse_responses ::
  "'s spacy \<Rightarrow> 'e ner_task \<Rightarrow> 's doc list \<Rightarrow> string list \<Rightarrow> py_error + 's doc list" where
  "NER_parse_responses env t docs responses =
     Inr (map (\<lambda>(d, prompt_response). parse_doc env t d prompt_response) (zip docs responses))"

section \<open>Built-in tasks\<close>

text \<open>
  \<open>builtin_task.py\<close>. The attributes that \<open>getattr\<close> and \<open>setattr\<close> reach by name
  (the template and the scalar configuration of the subclasses) are held in
  \<open>attrs\<close>; the few-shot examples are a field of their own. \<open>cfg_keys\<close> is the
  abstract property \<open>_cfg_keys\<close>, fixed by each subclass.
\<close>

record 'pe builtin_task =
  prompt_examples :: "'pe list"
  attrs :: "(string, py_value) dict"
  cfg_keys :: "string list"

text \<open>
  The few-shot example type is a collaborator: \<open>generate(eg, task)\<close> builds a prompt
  example from a training example, \<open>dict()\<close> and \<open>parse_obj\<close> convert it to and from a
  plain record.
\<close>

record ('eg, 'pe, 'd, 't) prompt_example_type =
  generate :: "'eg \<Rightarrow> 't \<Rightarrow> 'pe"
  to_dict :: "'pe \<Rightarrow> 'd"
  parse_obj :: "'d \<Rightarrow> 'pe"

text \<open>\<open>BuiltinTask.__init__\<close>: \<open>prompt_examples or []\<close>.\<close>

definition BuiltinTask_init :: "string \<Rightarrow> 'pe list option \<Rightarrow> string list \<Rightarrow> 'pe builtin_task" where
  "BuiltinTask_init template pes keys =
     \<lparr>prompt_examples = (case pes of None \<Rightarrow> [] | Some l \<Rightarrow> l),
      attrs = [(''_template'', PyStr template)],
      cfg_keys = keys\<rparr>"

text \<open>
  The loop of \<open>BuiltinTask._initialize\<close> over \<open>get_examples()\<close>: an example is
  appended when the cap is negative or the stored count is below the cap.
\<close>

fun initialize_loop ::
  "('eg, 'pe, 'd, ('pe, 'z) builtin_task_scheme) prompt_example_type \<Rightarrow> int
     \<Rightarrow> ('pe, 'z) builtin_task_scheme \<Rightarrow> 'eg list \<Rightarrow> ('pe, 'z) builtin_task_scheme" where
  "initialize_loop pet n t [] = t"
| "initialize_loop pet n t (eg # egs) =
     (if n < 0 \<or> int (length (prompt_examples t)) < n
      then initialize_loop pet n (t\<lparr>prompt_examples := prompt_examples t @ [generate pet eg t]\<rparr>) egs
      else initialize_loop pet n t egs)"

definition BuiltinTask_initialize ::
  "('eg, 'pe, 'd, ('pe, 'z) builtin_task_scheme) prompt_example_type
     \<Rightarrow> ('pe, 'z) builtin_task_scheme \<Rightarrow> 'eg list \<Rightarrow> int \<Rightarrow> ('pe, 'z) builtin_task_scheme" where
  "BuiltinTask_initialize pet t get_examples n_prompt_examples =
     initialize_loop pet n_prompt_examples t get_examples"

subsection \<open>Configuration and serialization\<close>

definition getattr :: "('pe, 'z) builtin_task_scheme \<Rightarrow> string \<Rightarrow> py_error + py_value" where
  "getattr t key =
     (case dict_get (attrs t) key of None \<Rightarrow> Inl (AttributeError key) | Some v \<Rightarrow> Inr v)"

definition setattr ::
  "('pe, 'z) builtin_task_scheme \<Rightarrow> string \<Rightarrow> py_value \<Rightarrow> ('pe, 'z) builtin_task_scheme" where
  "setattr t key v = t\<lparr>attrs := dict_set (attrs t) key v\<rparr>"

fun get_cfg_items ::
  "('pe, 'z) builtin_task_scheme \<Rightarrow> string list \<Rightarrow> py_error + (string \<times> py_value) list" where
  "get_cfg_items t [] = Inr []"
| "get_cfg_items t (key # keys) =
     (case getattr t key of
        Inl e \<Rightarrow> Inl e
      | Inr v \<Rightarrow> (case get_cfg_items t keys of
                   Inl e \<Rightarrow> Inl e
                 | Inr ps \<Rightarrow> Inr ((key, v) # ps)))"

text \<open>\<open>get_cfg\<close>: \<open>{key: getattr(self, key) for key in self._cfg_keys}\<close>.\<close>

definition get_cfg :: "('pe, 'z) builtin_task_scheme \<Rightarrow> py_error + (string, py_value) dict" where
  "get_cfg t =
     (case get_cfg_items t (cfg_keys t) of Inl e \<Rightarrow> Inl e | Inr ps \<Rightarrow> Inr (dict_of_pairs ps))"

text \<open>\<open>set_cfg\<close>: \<open>setattr(self, key, value)\<close> for every item of the dictionary.\<close>

definition set_cfg ::
  "('pe, 'z) builtin_task_scheme \<Rightarrow> (string, py_value) dict \<Rightarrow> ('pe, 'z) builtin_task_scheme" where
  "set_cfg t cfg = foldl (\<lambda>t' (key, v). setattr t' key v) t cfg"

definition get_prompt_examples ::
  "('eg, 'pe, 'd, 't) prompt_example_type \<Rightarrow> ('pe, 'z) builtin_task_scheme \<Rightarrow> 'd list" where
  "get_prompt_examples pet t = map (to_dict pet) (prompt_examples t)"

definition set_prompt_examples ::
  "('eg, 'pe, 'd, 't) prompt_example_type \<Rightarrow> ('pe, 'z) builtin_task_scheme \<Rightarrow> 'd list
     \<Rightarrow> ('pe, 'z) builtin_task_scheme" where
  "set_prompt_examples pet t examples = t\<lparr>prompt_examples := map (parse_obj pet) examples\<rparr>"

text \<open>
  The codecs of the \<open>srsly\<close> library are parameters: JSON for the configuration,
  msgpack for the examples, both producing values of a type \<open>'b\<close> of byte strings.
\<close>

record ('b, 'd) srsly =
  json_dumps :: "(string, py_value) dict \<Rightarrow> 'b"
  json_loads :: "'b \<Rightarrow> (string, py_value) dict"
  msgpack_dumps :: "'d list \<Rightarrow> 'b"
  msgpack_loads :: "'b \<Rightarrow> 'd list"

text \<open>
  Modelled from the spec: \<open>util.to_bytes\<close> and \<open>util.from_bytes\<close> are functions of
  the spaCy library and are not in the sources. Serialization keeps one entry per
  named channel that is not excluded; deserialization runs the setter of every
  channel that is not excluded and is present in the data. The packed message is
  kept as the dictionary of its channels.
\<close>

fun util_to_bytes ::
  "(string \<times> (unit \<Rightarrow> py_error + 'b)) list \<Rightarrow> string list \<Rightarrow> py_error + (string, 'b) dict" where
  "util_to_bytes [] exclude = Inr []"
| "util_to_bytes ((key, getter) # getters) exclude =
     (if key \<notin> set exclude
      then (case getter () of
              Inl e \<Rightarrow> Inl e
            | Inr b \<Rightarrow> (case util_to_bytes getters exclude of
                         Inl e \<Rightarrow> Inl e
                       | Inr msg \<Rightarrow> Inr ((key, b) # msg)))
      else util_to_bytes getters exclude)"

fun util_from_bytes ::
  "(string, 'b) dict \<Rightarrow> (string \<times> ('b \<Rightarrow> 't \<Rightarrow> 't)) list \<Rightarrow> string list \<Rightarrow> 't \<Rightarrow> 't" where
  "util_from_bytes msg [] exclude t = t"
| "util_from_bytes msg ((key, setter) # setters) exclude t =
     (if key \<notin> set exclude
      then (case dict_get msg key of
              None \<Rightarrow> util_from_bytes msg setters exclude t
            | Some b \<Rightarrow> util_from_bytes msg setters exclude (setter b t))
      else util_from_bytes msg setters exclude t)"

definition to_bytes ::
  "('b, 'd) srsly \<Rightarrow> ('eg, 'pe, 'd, 't) prompt_example_type \<Rightarrow> ('pe, 'z) builtin_task_scheme
     \<Rightarrow> string list \<Rightarrow> py_error + (string, 'b) dict" where
  "to_bytes srs pet t exclude =
     util_to_bytes
       [(''cfg'', \<lambda>_. case get_cfg t of Inl e \<Rightarrow> Inl e | Inr cfg \<Rightarrow> Inr (json_dumps srs cfg)),
        (''prompt_examples'', \<lambda>_. Inr (msgpack_dumps srs (get_prompt_examples pet t)))]
       exclude"

definition from_bytes ::
  "('b, 'd) srsly \<Rightarrow> ('eg, 'pe, 'd, 't) prompt_example_type \<Rightarrow> ('pe, 'z) builtin_task_scheme
     \<Rightarrow> (string, 'b) dict \<Rightarrow> string list \<Rightarrow> ('pe, 'z) builtin_task_scheme" where
  "from_bytes srs pet t bytes_data exclude =
     util_from_bytes bytes_data
       [(''cfg'', \<lambda>b t'. set_cfg t' (json_loads srs b)),
        (''prompt_examples'', \<lambda>b t'. set_prompt_examples pet t' (msgpack_loads srs b))]
       exclude t"

subsection \<open>Tasks with labels\<close>

record 'pe labeled_task = "'pe builtin_task" +
  normalizer :: "string \<Rightarrow> string"
  label_dict :: "(string, string) dict"
  label_definitions :: "(string, string) dict option"

text \<open>\<open>BuiltinTaskWithLabels.__init__\<close>: the map is built over \<open>sorted(set(labels))\<close>.\<close>

definition BuiltinTaskWithLabels_init ::
  "string \<Rightarrow> 'pe list option \<Rightarrow> string list \<Rightarrow> string list \<Rightarrow> (string, string) dict option
     \<Rightarrow> (string \<Rightarrow> string) option \<Rightarrow> 'pe labeled_task" where
  "BuiltinTaskWithLabels_init template pes keys labels defs normalizer_opt =
     (let nz = (case normalizer_opt of None \<Rightarrow> lowercase_normalizer | Some f \<Rightarrow> f)
      in builtin_task.extend (BuiltinTask_init template pes keys)
           (labeled_task.fields nz (make_label_dict nz (py_sorted_set labels)) defs))"

text \<open>The property \<open>labels\<close>: \<open>tuple(self._label_dict.values())\<close>.\<close>

definition labels :: "('pe, 'z) labeled_task_scheme \<Rightarrow> string list" where
  "labels t = dict_values (label_dict t)"

text \<open>
  The loop of \<open>BuiltinTaskWithLabels._initialize\<close>: labels are collected from an
  example only when they are inferred; examples are appended as in the base class.
\<close>

fun labeled_initialize_loop ::
  "('eg, 'pe, 'd, ('pe, 'z) labeled_task_scheme) prompt_example_type \<Rightarrow> ('eg \<Rightarrow> string list)
     \<Rightarrow> bool \<Rightarrow> int \<Rightarrow> string list \<times> ('pe, 'z) labeled_task_scheme \<Rightarrow> 'eg list
     \<Rightarrow> string list \<times> ('pe, 'z) labeled_task_scheme" where
  "labeled_initialize_loop pet extract_labels infer_labels n (ls, t) [] = (ls, t)"
| "labeled_initialize_loop pet extract_labels infer_labels n (ls, t) (eg # egs) =
     (let ls' = (if infer_labels then ls @ extract_labels eg else ls);
          t' = (if n < 0 \<or> int (length (prompt_examples t)) < n
                then t\<lparr>prompt_examples := prompt_examples t @ [generate pet eg t]\<rparr>
                else t)
      in labeled_initialize_loop pet extract_labels infer_labels n (ls', t') egs)"

definition BuiltinTaskWithLabels_initialize ::
  "('eg, 'pe, 'd, ('pe, 'z) labeled_task_scheme) prompt_example_type \<Rightarrow> ('eg \<Rightarrow> string list)
     \<Rightarrow> ('pe, 'z) labeled_task_scheme \<Rightarrow> 'eg list \<Rightarrow> string list \<Rightarrow> int
     \<Rightarrow> ('pe, 'z) labeled_task_scheme" where
  "BuiltinTaskWithLabels_initialize pet extract_labels t get_examples lbls n_prompt_examples =
     (let labels1 = (if lbls = [] then dict_values (label_dict t) else lbls);
          infer_labels = (labels1 = []);
          labels2 = (if infer_labels then [] else labels1);
          (labels3, t') = labeled_initialize_loop pet extract_labels infer_labels n_prompt_examples
                            (labels2, t) get_examples
      in t'\<lparr>label_dict := make_label_dict (normalizer t') (py_sorted_set labels3)\<rparr>)"

text \<open>
  \<open>add_label\<close>: the exception, or the returned integer with the updated task.
\<close>

definition add_label ::
  "('pe, 'z) labeled_task_scheme \<Rightarrow> py_value \<Rightarrow> py_error + (int \<times> ('pe, 'z) labeled_task_scheme)" where
  "add_label t label =
     (case label of
        PyStr l \<Rightarrow>
          if l \<in> set (labels t) then Inr (0, t)
          else Inr (1, t\<lparr>label_dict := dict_set (label_dict t) (normalizer t l) l\<rparr>)
      | _ \<Rightarrow> Inl (ValueError ''E187''))"

subsection \<open>The summarization task\<close>

record 'pe summarization_task = "'pe builtin_task" +
  max_n_words :: "int option"
  field :: string
  check_example_summaries :: bool

text \<open>
  \<open>SummarizationTask.parse_responses\<close>: the injected parser turns the responses
  into summaries, which are paired with the documents by \<open>zip\<close>.
\<close>

definition Summarization_parse_responses ::
  "('pe summarization_task \<Rightarrow> 's doc list \<Rightarrow> 'r list \<Rightarrow> 's list) \<Rightarrow> 'pe summarization_task
     \<Rightarrow> 's doc list \<Rightarrow> 'r list \<Rightarrow> py_error + 's doc list" where
  "Summarization_parse_responses parser t docs responses =
     Inr (map (\<lambda>(d, summary). d\<lparr>extensions := (extensions d)(field t \<mapsto> summary)\<rparr>)
            (zip docs (parser t docs responses)))"

section \<open>Concrete inputs\<close>

text \<open>A selector with three candidates for the first mention and none for the second.\<close>

definition demo_selector :: "unit pipeline_candidate_selector" where
  "demo_selector =
     \<lparr>get_candidates_batch =
        (\<lambda>ms. [[\<lparr>cand_entity = ''Q1'', prior_prob = 1 / 10\<rparr>,
                 \<lparr>cand_entity = ''Q2'', prior_prob = 9 / 10\<rparr>,
                 \<lparr>cand_entity = ''Q3'', prior_prob = 5 / 10\<rparr>], []]),
      descs = [''Q2'' \<mapsto> ''second''], top_n = 2\<rparr>"

definition demo_example_type :: "(nat, nat, nat, nat builtin_task) prompt_example_type" where
  "demo_example_type = \<lparr>generate = (\<lambda>eg t. eg + 100), to_dict = (\<lambda>pe. pe), parse_obj = (\<lambda>d. d)\<rparr>"

definition demo_labeled_task :: "nat labeled_task" where
  "demo_labeled_task =
     \<lparr>prompt_examples = [], attrs = [(''_template'', PyStr ''tpl'')], cfg_keys = [''_template''],
      normalizer = py_lower, label_dict = [(''b'', ''B'')], label_definitions = None\<rparr>"

definition demo_labeled_example_type :: "(string list, nat, nat, nat labeled_task) prompt_example_type" where
  "demo_labeled_example_type = \<lparr>generate = (\<lambda>eg t. length eg), to_dict = (\<lambda>pe. pe), parse_obj = (\<lambda>d. d)\<rparr>"

text \<open>
  A stand-in for the tokenizer and the phrase matcher: tokens are separated by spaces,
  and a punctuation mark is a token of its own. A phrase matches where its characters
  run from the start of a token to the end of a token, compared exactly when matching
  is case sensitive and after lowering otherwise. Matches come in the order of their
  start offsets, each range once.
\<close>

definition is_punct :: "char \<Rightarrow> bool" where
  "is_punct c = (c \<in> set ''.,;:!?'')"

definition token_start :: "string \<Rightarrow> nat \<Rightarrow> bool" where
  "token_start text j =
     (j < length text \<and> text ! j \<noteq> CHR '' '' \<and>
      (j = 0 \<or> text ! (j - 1) = CHR '' '' \<or> is_punct (text ! j) \<or> is_punct (text ! (j - 1))))"

definition token_end :: "string \<Rightarrow> nat \<Rightarrow> bool" where
  "token_end text j =
     (0 < j \<and> j \<le> length text \<and> text ! (j - 1) \<noteq> CHR '' '' \<and>
      (j = length text \<or> text ! j = CHR '' '' \<or> is_punct (text ! j) \<or> is_punct (text ! (j - 1))))"

definition demo_phrase_matcher :: "string \<Rightarrow> bool \<Rightarrow> string list \<Rightarrow> string \<Rightarrow> (nat \<times> nat) list" where
  "demo_phrase_matcher lng case_sensitive substrings text =
     remdups (concat (map (\<lambda>i. concat (map (\<lambda>p.
        if p \<noteq> [] \<and> token_start text i \<and> token_end text (i + length p) \<and>
           (if case_sensitive then py_slice i (i + length p) text = p
            else py_lower (py_slice i (i + length p) text) = py_lower p)
        then [(i, i + length p)] else []) substrings)) [0..<length text]))"

text \<open>
  A stand-in for \<open>Doc.char_span\<close> on the same tokens: offsets on token boundaries
  give the token range, where all alignment modes agree; other offsets, which the
  matcher above never produces, give \<open>None\<close>.
\<close>

definition demo_char_span :: "'s doc \<Rightarrow> nat \<Rightarrow> nat \<Rightarrow> string \<Rightarrow> (nat \<times> nat) option" where
  "demo_char_span d start end mode =
     (if start < end \<and> token_start (doc_text d) start \<and> token_end (doc_text d) end
      then Some (length (filter (token_start (doc_text d)) [0..<start]),
                 length (filter (token_start (doc_text d)) [0..<end]))
      else None)"

definition demo_env :: "unit spacy" where
  "demo_env = \<lparr>phrase_matcher = demo_phrase_matcher, char_span = demo_char_span\<rparr>"

definition span_new_york_times :: span where
  "span_new_york_times = \<lparr>span_start = 1, span_end = 4, span_label = ''ORG''\<rparr>"

definition span_york_times :: span where
  "span_york_times = \<lparr>span_start = 2, span_end = 4, span_label = ''ORG''\<rparr>"

definition span_new_york :: span where
  "span_new_york = \<lparr>span_start = 1, span_end = 3, span_label = ''GPE''\<rparr>"

definition demo_ner_env :: "unit spacy" where
  "demo_ner_env = \<lparr>phrase_matcher = demo_phrase_matcher, char_span = demo_char_span\<rparr>"

definition demo_ner_task :: "unit ner_task" where
  "demo_ner_task =
     \<lparr>ner_normalizer = lowercase_normalizer, ner_label_dict = [(''per'', ''PER''), (''org'', ''ORG'')],
      ner_examples = None, alignment_mode = ''contract'', lang = ''xx'',
      case_sensitive_matching = False, single_match = False\<rparr>"

definition demo_doc :: "string doc" where
  "demo_doc = \<lparr>doc_text = ''Alice works at Acme'', ents = [], extensions = Map.empty\<rparr>"

definition demo_ner_doc :: "unit doc" where
  "demo_ner_doc = \<lparr>doc_text = ''Alice works at Acme'', ents = [], extensions = Map.empty\<rparr>"

definition demo_response :: string where
  "demo_response =
     ''per: Alice'' @ [CHR 0x0A] @ ''LOC: Acme'' @ [CHR 0x0A] @ ''nonsense'' @ [CHR 0x0A] @ ''ORG:  ''"

definition demo_summarization_task :: "unit summarization_task" where
  "demo_summarization_task =
     \<lparr>prompt_examples = [], attrs = [(''_template'', PyStr ''tpl'')], cfg_keys = [''_template''],
      max_n_words = None, field = ''summary'', check_example_summaries = True\<rparr>"

datatype demo_bytes = JsonBytes "(string \<times> py_value) list" | MsgpackBytes "nat list"

definition demo_srsly :: "(demo_bytes, nat) srsly" where
  "demo_srsly =
     \<lparr>json_dumps = JsonBytes,
      json_loads = (\<lambda>b. case b of JsonBytes c \<Rightarrow> c | MsgpackBytes ds \<Rightarrow> []),
      msgpack_dumps = MsgpackBytes,
      msgpack_loads = (\<lambda>b. case b of JsonBytes c \<Rightarrow> [] | MsgpackBytes ds \<Rightarrow> ds)\<rparr>"

definition demo_task :: "nat builtin_task" where
  "demo_task =
     \<lparr>prompt_examples = [7], attrs = [(''_template'', PyStr ''tpl''), (''_n'', PyInt 3)],
      cfg_keys = [''_template'', ''_n'']\<rparr>"

definition demo_target :: "nat builtin_task" where
  "demo_target =
     \<lparr>prompt_examples = [], attrs = [(''_template'', PyStr ''other'')],
      cfg_keys = [''_template'', ''_n'']\<rparr>"

definition span_the_new :: span where
  "span_the_new = \<lparr>span_start = 0, span_end = 2, span_label = ''ORG''\<rparr>"



section \<open>Properties of dictionaries\<close>

lemma map_of_dict_set: "map_of (dict_set d k v) = (map_of d)(k \<mapsto> v)"
  by (induction d k v rule: dict_set.induct) (auto simp: fun_eq_iff)

lemma dict_get_dict_set: "dict_get (dict_set d k v) k' = (if k' = k then Some v else dict_get d k')"
  by (simp add: dict_get_def map_of_dict_set)

lemma keys_dict_set:
  "map fst (dict_set d k v) = (if k \<in> fst ` set d then map fst d else map fst d @ [k])"
  by (induction d k v rule: dict_set.induct) auto

lemma distinct_keys_dict_set: "distinct (map fst d) \<Longrightarrow> distinct (map fst (dict_set d k v))"
  by (simp add: keys_dict_set)

lemma value_in_dict_set: "v \<in> snd ` set (dict_set d k v)"
  by (induction d k v rule: dict_set.induct) (auto simp: image_iff)

lemma dict_set_same: "map_of d k = Some v \<Longrightarrow> dict_set d k v = d"
  by (induction d k v rule: dict_set.induct) (auto split: if_splits)

lemma foldl_dict_set_map_of:
  "map_of (foldl (\<lambda>d (k, v). dict_set d k v) d ps) = map_of d ++ map_of (rev ps)"
proof (induction ps arbitrary: d)
  case Nil
  show ?case by simp
next
  case (Cons p ps)
  obtain k v where p: "p = (k, v)" by (cases p)
  have "map_of (foldl (\<lambda>d (k, v). dict_set d k v) d (p # ps))
        = map_of (dict_set d k v) ++ map_of (rev ps)"
    using Cons.IH [of "dict_set d k v"] by (simp add: p)
  also have "\<dots> = map_of d ++ map_of (rev (p # ps))"
    by (simp add: p map_of_dict_set map_add_def fun_eq_iff split: option.splits)
  finally show ?case .
qed

lemma foldl_dict_set_distinct:
  "distinct (map fst d) \<Longrightarrow> distinct (map fst (foldl (\<lambda>d (k, v). dict_set d k v) d ps))"
  by (induction ps arbitrary: d) (auto simp: distinct_keys_dict_set split: prod.splits)

lemma map_of_dict_of_pairs: "map_of (dict_of_pairs ps) = map_of (rev ps)"
  by (simp add: dict_of_pairs_def foldl_dict_set_map_of)

lemma distinct_keys_dict_of_pairs: "distinct (dict_keys (dict_of_pairs ps))"
  by (simp add: dict_of_pairs_def dict_keys_def foldl_dict_set_distinct)

lemma dict_get_make_label_dict:
  "dict_get (make_label_dict nz ls) k =
     (if filter (\<lambda>l. nz l = k) ls = [] then None
      else Some (last (filter (\<lambda>l. nz l = k) ls)))"
proof (induction ls rule: rev_induct)
  case Nil
  show ?case by (simp add: dict_get_def make_label_dict_def map_of_dict_of_pairs)
next
  case (snoc l ls)
  have eq: "dict_get (make_label_dict nz (ls @ [l])) k
            = (if nz l = k then Some l else dict_get (make_label_dict nz ls) k)"
    by (simp add: dict_get_def make_label_dict_def map_of_dict_of_pairs)
  show ?case
    unfolding eq snoc.IH by simp
qed

lemma make_label_dict_values: "set (dict_values (make_label_dict nz ls)) \<subseteq> set ls"
proof
  fix v assume "v \<in> set (dict_values (make_label_dict nz ls))"
  then obtain k where "(k, v) \<in> set (make_label_dict nz ls)"
    by (auto simp: dict_values_def)
  moreover have "distinct (map fst (make_label_dict nz ls))"
    using distinct_keys_dict_of_pairs by (simp add: make_label_dict_def dict_keys_def)
  ultimately have "map_of (make_label_dict nz ls) k = Some v" by simp
  then have "map_of (rev (map (\<lambda>label. (nz label, label)) ls)) k = Some v"
    by (simp add: make_label_dict_def map_of_dict_of_pairs)
  then have "(k, v) \<in> set (rev (map (\<lambda>label. (nz label, label)) ls))"
    by (rule map_of_SomeD)
  then show "v \<in> set ls" by auto
qed


section \<open>Properties of the candidate selector\<close>

lemma length_py_sorted_desc: "length (py_sorted_desc f xs) = length xs"
  by (simp add: py_sorted_desc_def)

lemma py_sorted_desc_Nil_iff: "py_sorted_desc f xs = [] \<longleftrightarrow> xs = []"
  using length_py_sorted_desc [of f xs] by (metis length_0_conv)

lemma entities_of_cands_Nil: "entities_of_cands sel [] = [nil_entity]"
  by (simp add: entities_of_cands_def)

lemma entities_of_cands_nonempty:
  assumes "1 \<le> top_n sel"
  shows "entities_of_cands sel cands \<noteq> []"
proof (cases cands)
  case Nil
  then show ?thesis by (simp add: entities_of_cands_def)
next
  case (Cons c cs)
  from assms have "0 < nat (top_n sel)" by simp
  then obtain k where "nat (top_n sel) = Suc k" by (cases "nat (top_n sel)") auto
  with assms Cons show ?thesis
    by (simp add: entities_of_cands_def py_slice_to_def)
qed

text \<open>
  C2 (amended). The selector returns one entity list per candidate list of the
  knowledge base. A mention whose candidate list is empty gets exactly the sentinel
  (the NIL identifier with the placeholder description), for every \<open>top_n\<close>. Every
  mention has at least one entity when \<open>top_n \<ge> 1\<close>; a non-empty candidate list
  gives \<open>min top_n (number of candidates)\<close> entities when \<open>top_n \<ge> 0\<close>.
\<close>

theorem selector_call_candidates:
  "length (selector_call sel mentions) = length (get_candidates_batch sel mentions) \<and>
   (\<forall>i < length (get_candidates_batch sel mentions).
      (get_candidates_batch sel mentions ! i = [] \<longrightarrow> selector_call sel mentions ! i = [nil_entity]) \<and>
      (1 \<le> top_n sel \<longrightarrow> selector_call sel mentions ! i \<noteq> []) \<and>
      (get_candidates_batch sel mentions ! i \<noteq> [] \<longrightarrow> 0 \<le> top_n sel \<longrightarrow>
         length (selector_call sel mentions ! i)
           = min (nat (top_n sel)) (length (get_candidates_batch sel mentions ! i))))"
  by (auto simp: selector_call_def entities_of_cands_Nil entities_of_cands_nonempty
      py_sorted_desc_Nil_iff length_py_sorted_desc entities_of_cands_def py_slice_to_def)

theorem selector_call_candidates_witness:
  "length (selector_call demo_selector [(), ()]) = 2 \<and>
   selector_call demo_selector [(), ()] ! 1 = [nil_entity] \<and>
   selector_call demo_selector [(), ()] ! 0 \<noteq> [] \<and>
   length (selector_call demo_selector [(), ()] ! 0) = 2"
  using selector_call_candidates [of demo_selector "[(), ()]"]
  by (simp add: demo_selector_def All_less_Suc2 numeral_2_eq_2)

text \<open>
  With \<open>top_n = 0\<close> a mention that has a candidate yields no entity at all: the
  sentinel replaces only a candidate list that was empty before the cut.
\<close>

theorem selector_call_top_n_zero_counterexample:
  "selector_call \<lparr>get_candidates_batch = (\<lambda>ms. [[\<lparr>cand_entity = ''Q1'', prior_prob = 1\<rparr>]]),
                  descs = Map.empty, top_n = 0\<rparr> [()] = [[]]"
  by (simp add: selector_call_def entities_of_cands_def py_slice_to_def py_sorted_desc_def)

section \<open>Properties of initialization\<close>

lemma initialize_loop_examples:
  "\<exists>new. prompt_examples (initialize_loop pet n t egs) = prompt_examples t @ new \<and>
         length new = (if n < 0 then length egs
                       else min (length egs) (nat n - length (prompt_examples t)))"
proof (induction egs arbitrary: t)
  case Nil
  show ?case by simp
next
  case (Cons eg egs)
  show ?case
  proof (cases "n < 0 \<or> int (length (prompt_examples t)) < n")
    case True
    let ?t = "t\<lparr>prompt_examples := prompt_examples t @ [generate pet eg t]\<rparr>"
    from Cons.IH [of ?t] obtain new where
      new: "prompt_examples (initialize_loop pet n ?t egs) = prompt_examples ?t @ new"
        "length new = (if n < 0 then length egs
                       else min (length egs) (nat n - length (prompt_examples ?t)))"
      by blast
    have "prompt_examples (initialize_loop pet n t (eg # egs))
          = prompt_examples t @ (generate pet eg t # new)"
      using True new(1) by simp
    moreover have "length (generate pet eg t # new)
          = (if n < 0 then length (eg # egs)
             else min (length (eg # egs)) (nat n - length (prompt_examples t)))"
    proof (cases "n < 0")
      case True
      with new(2) show ?thesis by simp
    next
      case False
      with True have "length (prompt_examples t) < nat n" by linarith
      with False new(2) show ?thesis by (simp add: min_def) linarith
    qed
    ultimately show ?thesis by blast
  next
    case False
    from Cons.IH [of t] obtain new where
      new: "prompt_examples (initialize_loop pet n t egs) = prompt_examples t @ new"
        "length new = (if n < 0 then length egs
                       else min (length egs) (nat n - length (prompt_examples t)))"
      by blast
    from False have "nat n - length (prompt_examples t) = 0" by auto
    with False new show ?thesis by auto
  qed
qed

lemma initialize_loop_generated:
  "n < 0 \<Longrightarrow> \<exists>new. prompt_examples (initialize_loop pet n t egs) = prompt_examples t @ new \<and>
         length new = length egs \<and> (\<forall>i < length egs. \<exists>st. new ! i = generate pet (egs ! i) st)"
proof (induction egs arbitrary: t)
  case Nil
  show ?case by simp
next
  case (Cons eg egs)
  let ?t = "t\<lparr>prompt_examples := prompt_examples t @ [generate pet eg t]\<rparr>"
  from Cons.IH [OF Cons.prems, of ?t] obtain new where
    new: "prompt_examples (initialize_loop pet n ?t egs) = prompt_examples ?t @ new"
      "length new = length egs" "\<forall>i < length egs. \<exists>st. new ! i = generate pet (egs ! i) st"
    by blast
  have a: "prompt_examples (initialize_loop pet n t (eg # egs))
        = prompt_examples t @ (generate pet eg t # new)"
    using Cons.prems new(1) by simp
  have b: "\<forall>i < length (eg # egs). \<exists>st. (generate pet eg t # new) ! i = generate pet ((eg # egs) ! i) st"
  proof (intro allI impI)
    fix i assume "i < length (eg # egs)"
    then show "\<exists>st. (generate pet eg t # new) ! i = generate pet ((eg # egs) ! i) st"
      using new(3) by (cases i) auto
  qed
  from a b new(2) show ?case by (intro exI [of _ "generate pet eg t # new"]) simp
qed

text \<open>
  C9 (amended). Initialization keeps the examples that were stored before and only
  appends. With a cap \<open>n \<ge> 0\<close> and at most \<open>n\<close> examples stored before, the count
  afterwards is \<open>min n (stored + provided)\<close>, so it does not exceed \<open>n\<close>; with more
  than \<open>n\<close> stored before, nothing is appended and nothing is removed. With a
  negative cap every provided training example is taken, in order.
\<close>

theorem initialize_example_count:
  "(\<exists>new. prompt_examples (BuiltinTask_initialize pet t egs n) = prompt_examples t @ new \<and>
      (n < 0 \<longrightarrow> length new = length egs \<and>
         (\<forall>i < length egs. \<exists>st. new ! i = generate pet (egs ! i) st))) \<and>
   (0 \<le> n \<longrightarrow> int (length (prompt_examples t)) \<le> n \<longrightarrow>
      int (length (prompt_examples (BuiltinTask_initialize pet t egs n)))
        = min n (int (length (prompt_examples t)) + int (length egs))) \<and>
   (0 \<le> n \<longrightarrow> n \<le> int (length (prompt_examples t)) \<longrightarrow>
      prompt_examples (BuiltinTask_initialize pet t egs n) = prompt_examples t)"
proof (intro conjI impI)
  show "\<exists>new. prompt_examples (BuiltinTask_initialize pet t egs n) = prompt_examples t @ new \<and>
      (n < 0 \<longrightarrow> length new = length egs \<and>
         (\<forall>i < length egs. \<exists>st. new ! i = generate pet (egs ! i) st))"
  proof (cases "n < 0")
    case True
    from initialize_loop_generated [OF True, of pet t egs] show ?thesis
      using True by (auto simp: BuiltinTask_initialize_def)
  next
    case False
    with initialize_loop_examples [of pet n t egs] show ?thesis
      by (auto simp: BuiltinTask_initialize_def)
  qed
next
  assume "0 \<le> n" "int (length (prompt_examples t)) \<le> n"
  with initialize_loop_examples [of pet n t egs]
  show "int (length (prompt_examples (BuiltinTask_initialize pet t egs n)))
        = min n (int (length (prompt_examples t)) + int (length egs))"
    by (auto simp: BuiltinTask_initialize_def min_def)
next
  assume "0 \<le> n" "n \<le> int (length (prompt_examples t))"
  then have "nat n - length (prompt_examples t) = 0" by auto
  with initialize_loop_examples [of pet n t egs] \<open>0 \<le> n\<close>
  show "prompt_examples (BuiltinTask_initialize pet t egs n) = prompt_examples t"
    by (auto simp: BuiltinTask_initialize_def)
qed

theorem initialize_example_count_witness:
  "prompt_examples (BuiltinTask_initialize demo_example_type
      (BuiltinTask_init ''tpl'' (Some [7]) [''_template'']) [1, 2, 3] 2) = [7, 101] \<and>
   prompt_examples (BuiltinTask_initialize demo_example_type
      (BuiltinTask_init ''tpl'' (Some [7]) [''_template'']) [1, 2, 3] (- 1)) = [7, 101, 102, 103] \<and>
   int (length (prompt_examples (BuiltinTask_initialize demo_example_type
      (BuiltinTask_init ''tpl'' (Some [7]) [''_template'']) [1, 2, 3] 2))) = min 2 (1 + 3) \<and>
   prompt_examples (BuiltinTask_initialize demo_example_type
      (BuiltinTask_init ''tpl'' (Some [7, 8]) [''_template'']) [1, 2, 3] 1) = [7, 8]"
  using
    initialize_example_count [of demo_example_type
      "BuiltinTask_init ''tpl'' (Some [7]) [''_template'']" "[1, 2, 3]" 2]
    initialize_example_count [of demo_example_type
      "BuiltinTask_init ''tpl'' (Some [7]) [''_template'']" "[1, 2, 3]" "- 1"]
    initialize_example_count [of demo_example_type
      "BuiltinTask_init ''tpl'' (Some [7, 8]) [''_template'']" "[1, 2, 3]" 1]
  by (simp add: BuiltinTask_initialize_def BuiltinTask_init_def demo_example_type_def)

theorem initialize_example_count_counterexample:
  "\<not> int (length (prompt_examples (BuiltinTask_initialize demo_example_type
        (BuiltinTask_init ''tpl'' (Some [7, 8]) [''_template'']) [1, 2, 3] 1))) \<le> 1"
  by (simp add: BuiltinTask_initialize_def BuiltinTask_init_def demo_example_type_def)

section \<open>Properties of the label map\<close>

lemma set_py_sorted_set: "set (py_sorted_set xs) = set xs"
  by (simp add: py_sorted_set_def)

lemma sorted_py_sorted_set: "sorted (py_sorted_set xs)"
  by (simp add: py_sorted_set_def)

lemma sorted_le_last: "sorted xs \<Longrightarrow> x \<in> set xs \<Longrightarrow> x \<le> last xs"
  by (induction xs) auto

lemma last_filter_sorted_greatest:
  assumes "sorted ys" "l \<in> set ys" "P l"
  shows "l \<le> last (filter P ys) \<and> last (filter P ys) \<in> set ys \<and> P (last (filter P ys))"
proof -
  have mem: "l \<in> set (filter P ys)" using assms by simp
  then have ne: "filter P ys \<noteq> []" by (auto simp: filter_empty_conv)
  have "sorted (filter P ys)" using assms(1) by (rule sorted_wrt_filter)
  then have "l \<le> last (filter P ys)" using mem by (rule sorted_le_last)
  moreover have "last (filter P ys) \<in> set (filter P ys)" using ne by (rule last_in_set)
  ultimately show ?thesis by simp
qed

lemma make_label_dict_sorted_lookup:
  assumes "l \<in> set lbls"
  shows "\<exists>l'. dict_get (make_label_dict nz (py_sorted_set lbls)) (nz l) = Some l' \<and>
              l' \<in> set lbls \<and> nz l' = nz l \<and> l \<le> l'"
proof -
  let ?ys = "py_sorted_set lbls"
  let ?P = "\<lambda>x. nz x = nz l"
  have l: "l \<in> set ?ys" using assms by (simp add: set_py_sorted_set)
  from last_filter_sorted_greatest [OF sorted_py_sorted_set l, of ?P]
  have g: "l \<le> last (filter ?P ?ys)" "last (filter ?P ?ys) \<in> set ?ys" "nz (last (filter ?P ?ys)) = nz l"
    by simp_all
  have "filter ?P ?ys \<noteq> []" using l by (auto simp: filter_empty_conv)
  then have "dict_get (make_label_dict nz ?ys) (nz l) = Some (last (filter ?P ?ys))"
    by (simp add: dict_get_make_label_dict)
  with g show ?thesis by (auto simp: set_py_sorted_set)
qed

lemma make_label_dict_absent:
  "k \<notin> nz ` set ls \<Longrightarrow> dict_get (make_label_dict nz ls) k = None"
  by (auto simp: dict_get_make_label_dict filter_empty_conv)

lemma distinct_keys_make_label_dict: "distinct (dict_keys (make_label_dict nz ls))"
  by (simp add: make_label_dict_def distinct_keys_dict_of_pairs)

lemma label_dict_BuiltinTaskWithLabels_init:
  "label_dict (BuiltinTaskWithLabels_init template pes keys lbls defs normalizer_opt)
     = make_label_dict (case normalizer_opt of None \<Rightarrow> lowercase_normalizer | Some f \<Rightarrow> f)
         (py_sorted_set lbls)"
  by (simp add: BuiltinTaskWithLabels_init_def Let_def builtin_task.extend_def
      labeled_task.fields_def BuiltinTask_init_def)

lemma NERTask_init_ok:
  "validate_alignment mode = Inr () \<Longrightarrow>
   NERTask_init lbls ex normalizer_opt mode lng cs sm =
     Inr \<lparr>ner_normalizer = (case normalizer_opt of None \<Rightarrow> lowercase_normalizer | Some f \<Rightarrow> f),
          ner_label_dict = make_label_dict
            (case normalizer_opt of None \<Rightarrow> lowercase_normalizer | Some f \<Rightarrow> f)
            (py_split CHR '','' lbls),
          ner_examples = ex, alignment_mode = mode, lang = lng,
          case_sensitive_matching = cs, single_match = sm\<rparr>"
  by (simp add: NERTask_init_def Let_def)

text \<open>
  C5 (amended). In every label map the normalized keys are unique. The map of a
  labeled built-in task is built over the sorted, deduplicated labels: the form
  stored for a key is a supplied label with that key which is greater than or equal
  to every supplied label with that key (the later one in sorted order). The map of
  the NER task is built over the labels in the order of the comma-separated string:
  the form stored for a key is the last label of the string with that key.
\<close>

theorem label_dict_collisions:
  "(let nz = (case normalizer_opt of None \<Rightarrow> lowercase_normalizer | Some f \<Rightarrow> f);
        d = label_dict (BuiltinTaskWithLabels_init template pes keys lbls defs normalizer_opt)
    in distinct (dict_keys d) \<and>
       (\<forall>l \<in> set lbls. \<exists>l'. dict_get d (nz l) = Some l' \<and> l' \<in> set lbls \<and> nz l' = nz l \<and> l \<le> l') \<and>
       (\<forall>k. k \<notin> nz ` set lbls \<longrightarrow> dict_get d k = None)) \<and>
   (validate_alignment mode = Inr () \<longrightarrow>
      (let nz = (case normalizer_opt of None \<Rightarrow> lowercase_normalizer | Some f \<Rightarrow> f)
       in \<exists>t. NERTask_init labels_str ex normalizer_opt mode lng cs sm = Inr t \<and>
            distinct (dict_keys (ner_label_dict t)) \<and>
            (\<forall>k. dict_get (ner_label_dict t) k =
               (if filter (\<lambda>l. nz l = k) (py_split CHR '','' labels_str) = [] then None
                else Some (last (filter (\<lambda>l. nz l = k) (py_split CHR '','' labels_str)))))))"
  unfolding Let_def label_dict_BuiltinTaskWithLabels_init
proof (intro conjI ballI allI impI)
  show "distinct (dict_keys (make_label_dict
      (case normalizer_opt of None \<Rightarrow> lowercase_normalizer | Some f \<Rightarrow> f) (py_sorted_set lbls)))"
    by (rule distinct_keys_make_label_dict)
next
  fix l assume "l \<in> set lbls"
  then show "\<exists>l'. dict_get (make_label_dict
        (case normalizer_opt of None \<Rightarrow> lowercase_normalizer | Some f \<Rightarrow> f) (py_sorted_set lbls))
        ((case normalizer_opt of None \<Rightarrow> lowercase_normalizer | Some f \<Rightarrow> f) l) = Some l' \<and>
      l' \<in> set lbls \<and>
      (case normalizer_opt of None \<Rightarrow> lowercase_normalizer | Some f \<Rightarrow> f) l'
        = (case normalizer_opt of None \<Rightarrow> lowercase_normalizer | Some f \<Rightarrow> f) l \<and> l \<le> l'"
    by (rule make_label_dict_sorted_lookup)
next
  fix k assume "k \<notin> (case normalizer_opt of None \<Rightarrow> lowercase_normalizer | Some f \<Rightarrow> f) ` set lbls"
  then show "dict_get (make_label_dict
        (case normalizer_opt of None \<Rightarrow> lowercase_normalizer | Some f \<Rightarrow> f) (py_sorted_set lbls)) k = None"
    by (simp add: make_label_dict_absent set_py_sorted_set)
next
  assume "validate_alignment mode = Inr ()"
  then show "\<exists>t. NERTask_init labels_str ex normalizer_opt mode lng cs sm = Inr t \<and>
            distinct (dict_keys (ner_label_dict t)) \<and>
            (\<forall>k. dict_get (ner_label_dict t) k =
               (if filter (\<lambda>l. (case normalizer_opt of None \<Rightarrow> lowercase_normalizer | Some f \<Rightarrow> f) l = k)
                      (py_split CHR '','' labels_str) = [] then None
                else Some (last (filter (\<lambda>l. (case normalizer_opt of None \<Rightarrow> lowercase_normalizer | Some f \<Rightarrow> f) l = k)
                      (py_split CHR '','' labels_str)))))"
    by (simp add: NERTask_init_ok distinct_keys_make_label_dict dict_get_make_label_dict)
qed

lemma py_lower_examples: "py_lower ''b'' = ''b''" "py_lower ''B'' = ''b''"
  by code_simp+

lemma string_order_examples: "''B'' \<le> ''b''" "\<not> ''b'' \<le> ''B''"
  by (simp_all add: less_eq_char_def less_char_def)

lemma py_sorted_set_example: "py_sorted_set [''b'', ''B''] = [''B'', ''b'']"
  by (simp add: py_sorted_set_def less_eq_char_def less_char_def)

theorem label_dict_collisions_counterexample:
  "NERTask_init ''b,B'' None None ''contract'' ''xx'' False False =
     Inr \<lparr>ner_normalizer = lowercase_normalizer, ner_label_dict = [(''b'', ''B'')],
          ner_examples = (None :: unit list option), alignment_mode = ''contract'', lang = ''xx'',
          case_sensitive_matching = False, single_match = False\<rparr> \<and>
   py_split CHR '','' ''b,B'' = [''b'', ''B''] \<and>
   py_sorted_set [''b'', ''B''] = [''B'', ''b'']"
  by (simp add: NERTask_init_def validate_alignment_def make_label_dict_def dict_of_pairs_def
      lowercase_normalizer_def py_lower_examples less_eq_char_def less_char_def
      py_sorted_set_def)

theorem label_dict_collisions_witness:
  "validate_alignment ''contract'' = Inr () \<and> ''B'' \<in> set [''b'', ''B''] \<and>
   label_dict (BuiltinTaskWithLabels_init ''tpl'' (None :: unit list option) [] [''b'', ''B''] None None)
     = [(''b'', ''b'')] \<and>
   dict_get (label_dict (BuiltinTaskWithLabels_init ''tpl'' (None :: unit list option) [] [''b'', ''B''] None None))
     (lowercase_normalizer ''B'') = Some ''b'' \<and> ''B'' \<le> ''b''"
  using label_dict_collisions [of None "''tpl''" "None :: unit list option" "[]" "[''b'', ''B'']" None
      "''contract''" "''b,B''" "None :: unit list option" "''xx''" False False]
  by (simp add: validate_alignment_def label_dict_BuiltinTaskWithLabels_init make_label_dict_def
      dict_of_pairs_def dict_get_def lowercase_normalizer_def py_lower_examples py_sorted_set_example string_order_examples)

section \<open>Properties of labeled tasks\<close>

lemma labeled_initialize_loop_result:
  "fst (labeled_initialize_loop pet extract_labels infer n (ls, t) egs)
     = ls @ (if infer then concat (map extract_labels egs) else []) \<and>
   normalizer (snd (labeled_initialize_loop pet extract_labels infer n (ls, t) egs)) = normalizer t \<and>
   label_dict (snd (labeled_initialize_loop pet extract_labels infer n (ls, t) egs)) = label_dict t"
proof (induction egs arbitrary: ls t)
  case Nil
  show ?case by simp
next
  case (Cons eg egs)
  show ?case
    by (simp add: Let_def Cons.IH)
qed

lemma label_dict_initialize:
  "label_dict (BuiltinTaskWithLabels_initialize pet extract_labels t egs lbls n) =
     make_label_dict (normalizer t)
       (py_sorted_set (if lbls \<noteq> [] then lbls
                       else if labels t \<noteq> [] then labels t
                       else concat (map extract_labels egs)))"
proof -
  let ?l1 = "if lbls = [] then dict_values (label_dict t) else lbls"
  let ?r = "labeled_initialize_loop pet extract_labels (?l1 = []) n (if ?l1 = [] then [] else ?l1, t) egs"
  have "label_dict (BuiltinTaskWithLabels_initialize pet extract_labels t egs lbls n)
        = make_label_dict (normalizer (snd ?r)) (py_sorted_set (fst ?r))"
    by (simp add: BuiltinTaskWithLabels_initialize_def Let_def split_beta)
  also have "\<dots> = make_label_dict (normalizer t)
       (py_sorted_set (if lbls \<noteq> [] then lbls
                       else if labels t \<noteq> [] then labels t
                       else concat (map extract_labels egs)))"
    using labeled_initialize_loop_result [of pet extract_labels "?l1 = []" n "if ?l1 = [] then [] else ?l1" t egs]
    by (auto simp: labels_def)
  finally show ?thesis .
qed

text \<open>
  C7. After initialization the label map is built from exactly one source: the
  explicit labels when they are not empty, else the previously configured labels
  when there are any, else the labels extracted from the training examples. Unless
  both the explicit and the prior labels are empty, the result does not depend on
  what the examples contain.
\<close>

theorem initialize_label_precedence:
  "label_dict (BuiltinTaskWithLabels_initialize pet extract_labels t egs lbls n) =
     make_label_dict (normalizer t)
       (py_sorted_set (if lbls \<noteq> [] then lbls
                       else if labels t \<noteq> [] then labels t
                       else concat (map extract_labels egs))) \<and>
   (lbls \<noteq> [] \<or> labels t \<noteq> [] \<longrightarrow>
      label_dict (BuiltinTaskWithLabels_initialize pet extract_labels2 t egs lbls n)
        = label_dict (BuiltinTaskWithLabels_initialize pet extract_labels t egs lbls n))"
proof (intro conjI impI)
  show "label_dict (BuiltinTaskWithLabels_initialize pet extract_labels t egs lbls n) =
     make_label_dict (normalizer t)
       (py_sorted_set (if lbls \<noteq> [] then lbls
                       else if labels t \<noteq> [] then labels t
                       else concat (map extract_labels egs)))"
    by (rule label_dict_initialize)
next
  assume given: "lbls \<noteq> [] \<or> labels t \<noteq> []"
  then have "(if lbls \<noteq> [] then lbls else if labels t \<noteq> [] then labels t
              else concat (map extract_labels2 egs))
           = (if lbls \<noteq> [] then lbls else if labels t \<noteq> [] then labels t
              else concat (map extract_labels egs))"
    by auto
  then show "label_dict (BuiltinTaskWithLabels_initialize pet extract_labels2 t egs lbls n)
        = label_dict (BuiltinTaskWithLabels_initialize pet extract_labels t egs lbls n)"
    by (simp only: label_dict_initialize)
qed

lemma add_label_str:
  "add_label t (PyStr l) =
     (if l \<in> set (labels t) then Inr (0, t)
      else Inr (1, t\<lparr>label_dict := dict_set (label_dict t) (normalizer t l) l\<rparr>))"
  by (simp add: add_label_def)

lemma add_label_not_str: "(\<forall>s. v \<noteq> PyStr s) \<Longrightarrow> add_label t v = Inl (ValueError ''E187'')"
  by (cases v) (simp_all add: add_label_def)

text \<open>
  C6. \<open>add_label\<close> raises for every value that is not a string. For a string that
  is among the task's labels it returns 0 and leaves the task unchanged. For a
  string that is not among them it returns 1 and stores the label under its
  normalized key: afterwards the label is among the task's labels, and every other
  key maps as before.
\<close>

theorem add_label_result:
  "((\<forall>s. v \<noteq> PyStr s) \<longrightarrow> (\<exists>e. add_label t v = Inl e)) \<and>
   (l \<in> set (labels t) \<longrightarrow> add_label t (PyStr l) = Inr (0, t)) \<and>
   (l \<notin> set (labels t) \<longrightarrow>
      (\<exists>t'. add_label t (PyStr l) = Inr (1, t') \<and> l \<in> set (labels t') \<and>
            dict_get (label_dict t') (normalizer t l) = Some l \<and>
            (\<forall>k. k \<noteq> normalizer t l \<longrightarrow> dict_get (label_dict t') k = dict_get (label_dict t) k)))"
proof (intro conjI impI)
  assume "\<forall>s. v \<noteq> PyStr s"
  then show "\<exists>e. add_label t v = Inl e" by (simp add: add_label_not_str)
next
  assume "l \<in> set (labels t)"
  then show "add_label t (PyStr l) = Inr (0, t)" by (simp add: add_label_str)
next
  assume a: "l \<notin> set (labels t)"
  let ?t = "t\<lparr>label_dict := dict_set (label_dict t) (normalizer t l) l\<rparr>"
  have "add_label t (PyStr l) = Inr (1, ?t)" using a by (simp add: add_label_str)
  moreover have "l \<in> set (labels ?t)"
    using value_in_dict_set [of l "label_dict t" "normalizer t l"]
    by (simp add: labels_def dict_values_def)
  moreover have "dict_get (label_dict ?t) (normalizer t l) = Some l"
    by (simp add: dict_get_dict_set)
  moreover have "\<forall>k. k \<noteq> normalizer t l \<longrightarrow> dict_get (label_dict ?t) k = dict_get (label_dict t) k"
    by (simp add: dict_get_dict_set)
  ultimately show "\<exists>t'. add_label t (PyStr l) = Inr (1, t') \<and> l \<in> set (labels t') \<and>
            dict_get (label_dict t') (normalizer t l) = Some l \<and>
            (\<forall>k. k \<noteq> normalizer t l \<longrightarrow> dict_get (label_dict t') k = dict_get (label_dict t) k)"
    by blast
qed

lemma py_lower_letters:
  "py_lower ''a'' = ''a''" "py_lower ''x'' = ''x''" "py_lower ''y'' = ''y''"
  by code_simp+

theorem add_label_result_witness:
  "add_label demo_labeled_task (PyInt 3) = Inl (ValueError ''E187'') \<and>
   ''B'' \<in> set (labels demo_labeled_task) \<and>
   add_label demo_labeled_task (PyStr ''B'') = Inr (0, demo_labeled_task) \<and>
   ''a'' \<notin> set (labels demo_labeled_task) \<and>
   add_label demo_labeled_task (PyStr ''a'')
     = Inr (1, demo_labeled_task\<lparr>label_dict := [(''b'', ''B''), (''a'', ''a'')]\<rparr>) \<and>
   add_label demo_labeled_task (PyStr ''b'')
     = Inr (1, demo_labeled_task\<lparr>label_dict := [(''b'', ''b'')]\<rparr>)"
  using add_label_result [of "PyInt 3" demo_labeled_task "''B''"]
    add_label_result [of "PyInt 3" demo_labeled_task "''a''"]
  by (simp add: add_label_def demo_labeled_task_def labels_def dict_values_def
      py_lower_letters py_lower_examples)

theorem initialize_label_precedence_witness:
  "label_dict (BuiltinTaskWithLabels_initialize demo_labeled_example_type (\<lambda>eg. eg)
      demo_labeled_task [[''x''], [''y'']] [''b'', ''a''] 0) = [(''a'', ''a''), (''b'', ''b'')] \<and>
   label_dict (BuiltinTaskWithLabels_initialize demo_labeled_example_type (\<lambda>eg. eg)
      demo_labeled_task [[''x''], [''y'']] [] 0) = [(''b'', ''B'')] \<and>
   label_dict (BuiltinTaskWithLabels_initialize demo_labeled_example_type (\<lambda>eg. eg)
      (demo_labeled_task\<lparr>label_dict := []\<rparr>) [[''y''], [''x'']] [] 0) = [(''x'', ''x''), (''y'', ''y'')]"
  using initialize_label_precedence [of demo_labeled_example_type "\<lambda>eg. eg" demo_labeled_task
      "[[''x''], [''y'']]" "[''b'', ''a'']" 0 "\<lambda>eg. []"]
  by (simp add: label_dict_initialize labels_def dict_values_def demo_labeled_task_def
      make_label_dict_def dict_of_pairs_def py_sorted_set_def less_eq_char_def less_char_def
      py_lower_letters py_lower_examples)

section \<open>Properties of the phrase search\<close>

lemma filter_first_hit_enumerate:
  "filter_first_hit cs text seen filtered ms =
     filtered @ map snd (filter (\<lambda>(i, x). match_text cs text x
                                  \<notin> set seen \<union> match_text cs text ` set (take (i - n) ms))
                          (enumerate n ms))"
proof (induction ms arbitrary: seen filtered n)
  case Nil
  show ?case by simp
next
  case (Cons m ms)
  let ?key = "match_text cs text"
  let ?seen' = "if ?key m \<in> set seen then seen else seen @ [?key m]"
  let ?filtered' = "if ?key m \<in> set seen then filtered else filtered @ [(fst m, snd m)]"
  have tail: "filter (\<lambda>(i, x). ?key x \<notin> set ?seen' \<union> ?key ` set (take (i - Suc n) ms))
                (enumerate (Suc n) ms)
              = filter (\<lambda>(i, x). ?key x \<notin> set seen \<union> ?key ` set (take (i - n) (m # ms)))
                (enumerate (Suc n) ms)"
  proof (rule filter_cong [OF refl])
    fix p assume "p \<in> set (enumerate (Suc n) ms)"
    then have "Suc n \<le> fst p" by (simp add: in_set_enumerate_eq)
    then obtain i x where p: "p = (i, x)" and i: "Suc n \<le> i"
      by (cases p) simp
    from i obtain k where k: "i - n = Suc k" "i - Suc n = k"
      by (cases "i - n") auto
    show "(case p of (i, x) \<Rightarrow> ?key x \<notin> set ?seen' \<union> ?key ` set (take (i - Suc n) ms))
          = (case p of (i, x) \<Rightarrow> ?key x \<notin> set seen \<union> ?key ` set (take (i - n) (m # ms)))"
      by (auto simp: p k)
  qed
  have "filter_first_hit cs text seen filtered (m # ms)
        = filter_first_hit cs text ?seen' ?filtered' ms"
    by (simp add: Let_def)
  also have "\<dots> = ?filtered' @ map snd
        (filter (\<lambda>(i, x). ?key x \<notin> set ?seen' \<union> ?key ` set (take (i - Suc n) ms))
           (enumerate (Suc n) ms))"
    by (rule Cons.IH)
  also have "\<dots> = ?filtered' @ map snd
        (filter (\<lambda>(i, x). ?key x \<notin> set seen \<union> ?key ` set (take (i - n) (m # ms)))
           (enumerate (Suc n) ms))"
    by (simp only: tail)
  also have "\<dots> = filtered @ map snd
        (filter (\<lambda>(i, x). ?key x \<notin> set seen \<union> ?key ` set (take (i - n) (m # ms)))
           (enumerate n (m # ms)))"
    by simp
  finally show ?case .
qed

lemma first_seen_spec_snoc:
  "first_seen_spec key (xs @ [x]) =
     first_seen_spec key xs @ (if key x \<in> key ` set xs then [] else [x])"
proof -
  have "filter (\<lambda>(i, y). key y \<notin> key ` set (take i (xs @ [x]))) (enumerate 0 xs)
        = filter (\<lambda>(i, y). key y \<notin> key ` set (take i xs)) (enumerate 0 xs)"
    by (rule filter_cong [OF refl]) (auto simp: in_set_enumerate_eq)
  then show ?thesis
    by (simp add: first_seen_spec_def enumerate_append_eq)
qed

lemma first_seen_spec_Nil: "first_seen_spec key [] = []"
  by (simp add: first_seen_spec_def)

lemma first_seen_spec_keys: "key ` set (first_seen_spec key xs) = key ` set xs"
proof (induction xs rule: rev_induct)
  case Nil
  show ?case by (simp add: first_seen_spec_Nil)
next
  case (snoc x xs)
  then show ?case by (auto simp: first_seen_spec_snoc)
qed

lemma first_seen_spec_distinct: "distinct (map key (first_seen_spec key xs))"
proof (induction xs rule: rev_induct)
  case Nil
  show ?case by (simp add: first_seen_spec_Nil)
next
  case (snoc x xs)
  have "key x \<notin> key ` set xs \<Longrightarrow> key x \<notin> key ` set (first_seen_spec key xs)"
    by (simp add: first_seen_spec_keys)
  with snoc show ?case by (auto simp: first_seen_spec_snoc)
qed

lemma match_text_policy:
  "match_text False text m = py_lower (py_slice (fst m) (snd m) text)"
  "match_text True text m = py_slice (fst m) (snd m) text"
  by (simp_all add: match_text_def)

lemma find_substrings_first_seen:
  "find_substrings env text subs lng cs True
     = first_seen_spec (match_text cs text) (phrase_matcher env lng cs subs text)"
  using filter_first_hit_enumerate [of cs "text" "[]" "[]" "phrase_matcher env lng cs subs text" 0]
  by (simp add: find_substrings_def first_seen_spec_def)

text \<open>
  C3 (amended). With \<open>single_match\<close> enabled, \<open>find_substrings\<close> returns the matches
  whose compared text does not occur among the earlier matches, in the order of the
  matches and whatever phrase produced them. Under case-insensitive matching the
  compared text is the matched text lowered, so every lowered text of a match is kept
  exactly once. Under case-sensitive matching the compared text is the matched text
  itself, so every exact text is kept exactly once and matches that differ only in
  case are all kept. With \<open>single_match\<close> disabled it returns every match.
\<close>

theorem find_substrings_single_match:
  "find_substrings env text subs lng False True
     = first_seen_spec (\<lambda>m. py_lower (py_slice (fst m) (snd m) text))
         (phrase_matcher env lng False subs text) \<and>
   distinct (map (\<lambda>m. py_lower (py_slice (fst m) (snd m) text))
      (find_substrings env text subs lng False True)) \<and>
   (\<lambda>m. py_lower (py_slice (fst m) (snd m) text)) ` set (find_substrings env text subs lng False True)
     = (\<lambda>m. py_lower (py_slice (fst m) (snd m) text)) ` set (phrase_matcher env lng False subs text) \<and>
   find_substrings env text subs lng True True
     = first_seen_spec (\<lambda>m. py_slice (fst m) (snd m) text)
         (phrase_matcher env lng True subs text) \<and>
   distinct (map (\<lambda>m. py_slice (fst m) (snd m) text)
      (find_substrings env text subs lng True True)) \<and>
   (\<lambda>m. py_slice (fst m) (snd m) text) ` set (find_substrings env text subs lng True True)
     = (\<lambda>m. py_slice (fst m) (snd m) text) ` set (phrase_matcher env lng True subs text) \<and>
   find_substrings env text subs lng cs False = phrase_matcher env lng cs subs text"
proof -
  have lower_key: "match_text False text = (\<lambda>m. py_lower (py_slice (fst m) (snd m) text))"
    by (simp add: fun_eq_iff match_text_policy)
  have exact_key: "match_text True text = (\<lambda>m. py_slice (fst m) (snd m) text)"
    by (simp add: fun_eq_iff match_text_policy)
  have insensitive: "find_substrings env text subs lng False True
     = first_seen_spec (\<lambda>m. py_lower (py_slice (fst m) (snd m) text))
         (phrase_matcher env lng False subs text)"
    using find_substrings_first_seen [of env "text" subs lng False] by (simp only: lower_key)
  have sensitive: "find_substrings env text subs lng True True
     = first_seen_spec (\<lambda>m. py_slice (fst m) (snd m) text)
         (phrase_matcher env lng True subs text)"
    using find_substrings_first_seen [of env "text" subs lng True] by (simp only: exact_key)
  have every: "find_substrings env text subs lng cs False = phrase_matcher env lng cs subs text"
    by (simp add: find_substrings_def)
  show ?thesis
    unfolding insensitive sensitive every
    by (intro conjI refl first_seen_spec_distinct first_seen_spec_keys)
qed

lemma demo_find_substrings:
  "find_substrings demo_env ''New York or new york or NEW YORK'' [''New York'', ''new york'']
      ''xx'' False True = [(0, 8)]"
  "find_substrings demo_env ''New York or new york or NEW YORK'' [''New York'', ''new york'']
      ''xx'' False False = [(0, 8), (12, 20), (24, 32)]"
  "find_substrings demo_env ''New York or new york or NEW YORK'' [''New York'', ''new york'']
      ''xx'' True True = [(0, 8), (12, 20)]"
  "find_substrings demo_env ''The New York Times is based in New York.'' [''New York'']
      ''xx'' False False = [(4, 12), (31, 39)]"
  "find_substrings demo_env ''The New York Times is based in New York.'' [''New York'']
      ''xx'' False True = [(4, 12)]"
  by code_simp+

lemma demo_lowered:
  "py_lower (py_slice 0 8 ''New York or new york or NEW YORK'') = ''new york''"
  "py_lower (py_slice 12 20 ''New York or new york or NEW YORK'') = ''new york''"
  "py_lower [CHR 0xC9, CHR ''t'', CHR 0xC9] = [CHR 0xE9, CHR ''t'', CHR 0xE9]"
  "py_lower [CHR 0xD7, CHR 0xDF, CHR ''1''] = [CHR 0xD7, CHR 0xDF, CHR ''1'']"
  by code_simp+

theorem find_substrings_single_match_witness:
  "find_substrings demo_env ''New York or new york or NEW YORK'' [''New York'', ''new york'']
      ''xx'' False True = [(0, 8)] \<and>
   find_substrings demo_env ''New York or new york or NEW YORK'' [''New York'', ''new york'']
      ''xx'' False False = [(0, 8), (12, 20), (24, 32)] \<and>
   find_substrings demo_env ''New York or new york or NEW YORK'' [''New York'', ''new york'']
      ''xx'' True True = [(0, 8), (12, 20)] \<and>
   find_substrings demo_env ''The New York Times is based in New York.'' [''New York'']
      ''xx'' False False = [(4, 12), (31, 39)] \<and>
   find_substrings demo_env ''The New York Times is based in New York.'' [''New York'']
      ''xx'' False True = [(4, 12)] \<and>
   py_lower (py_slice 0 8 ''New York or new york or NEW YORK'') = ''new york'' \<and>
   py_lower [CHR 0xC9, CHR ''t'', CHR 0xC9] = [CHR 0xE9, CHR ''t'', CHR 0xE9] \<and>
   py_lower [CHR 0xD7, CHR 0xDF, CHR ''1''] = [CHR 0xD7, CHR 0xDF, CHR ''1'']"
  using find_substrings_single_match [of demo_env "''New York or new york or NEW YORK''"
      "[''New York'', ''new york'']" "''xx''" False]
  by (simp add: demo_find_substrings demo_lowered)

text \<open>
  Under case-sensitive matching two matches whose texts differ only in case are both
  retained, although their case-normalized texts are identical.
\<close>

theorem find_substrings_case_sensitive_counterexample:
  "find_substrings demo_env ''New York or new york or NEW YORK'' [''New York'', ''new york'']
      ''xx'' True True = [(0, 8), (12, 20)] \<and>
   py_lower (py_slice 0 8 ''New York or new york or NEW YORK'')
     = py_lower (py_slice 12 20 ''New York or new york or NEW YORK'')"
  by (simp add: demo_find_substrings demo_lowered)

section \<open>Properties of overlap resolution\<close>

lemma overlaps_sym: "overlaps a b = overlaps b a"
  by (auto simp: overlaps_def)

lemma accept_spans_mono: "set accepted \<subseteq> set (accept_spans accepted ss)"
proof (induction ss arbitrary: accepted)
  case Nil
  show ?case by simp
next
  case (Cons s ss)
  from Cons [of accepted] Cons [of "accepted @ [s]"] show ?case by auto
qed

lemma accept_spans_subset: "set (accept_spans accepted ss) \<subseteq> set accepted \<union> set ss"
proof (induction ss arbitrary: accepted)
  case Nil
  show ?case by simp
next
  case (Cons s ss)
  from Cons [of accepted] Cons [of "accepted @ [s]"] show ?case by auto
qed

lemma accept_spans_disjoint:
  "sorted_wrt (\<lambda>a b. \<not> overlaps a b) accepted \<Longrightarrow>
   sorted_wrt (\<lambda>a b. \<not> overlaps a b) (accept_spans accepted ss)"
proof (induction ss arbitrary: accepted)
  case Nil
  then show ?case by simp
next
  case (Cons s ss)
  show ?case
  proof (cases "list_ex (overlaps s) accepted")
    case True
    with Cons show ?thesis by simp
  next
    case False
    then have "\<forall>a \<in> set accepted. \<not> overlaps a s"
      by (auto simp: list_ex_iff overlaps_sym [of s])
    with Cons.prems have "sorted_wrt (\<lambda>a b. \<not> overlaps a b) (accepted @ [s])"
      by (simp add: sorted_wrt_append)
    from Cons.IH [OF this] False show ?thesis by simp
  qed
qed

lemma accept_spans_greedy:
  assumes "sorted_wrt (\<lambda>a b. span_len b \<le> span_len a) ss"
    and "\<forall>a \<in> set accepted. \<forall>s \<in> set ss. span_len s \<le> span_len a"
    and "s \<in> set ss"
  shows "s \<in> set (accept_spans accepted ss) \<or>
         (\<exists>a \<in> set (accept_spans accepted ss). overlaps s a \<and> span_len s \<le> span_len a)"
  using assms
proof (induction ss arbitrary: accepted)
  case Nil
  then show ?case by simp
next
  case (Cons x ss)
  show ?case
  proof (cases "list_ex (overlaps x) accepted")
    case True
    show ?thesis
    proof (cases "s = x")
      case sx: True
      from True obtain a where a: "a \<in> set accepted" "overlaps x a"
        by (auto simp: list_ex_iff)
      with Cons.prems(2) have "span_len x \<le> span_len a" by simp
      moreover have "a \<in> set (accept_spans accepted (x # ss))"
        using a(1) accept_spans_mono by blast
      ultimately show ?thesis using a(2) sx by blast
    next
      case False
      with Cons.prems have "s \<in> set ss" by simp
      moreover from Cons.prems(1) have "sorted_wrt (\<lambda>a b. span_len b \<le> span_len a) ss" by simp
      moreover from Cons.prems(2) have "\<forall>a \<in> set accepted. \<forall>s \<in> set ss. span_len s \<le> span_len a"
        by simp
      ultimately show ?thesis using Cons.IH [of accepted] True by simp
    qed
  next
    case False
    have in_res: "x \<in> set (accept_spans accepted (x # ss))"
      using False accept_spans_mono [of "accepted @ [x]" ss] by simp
    show ?thesis
    proof (cases "s = x")
      case True
      with in_res show ?thesis by simp
    next
      case sx: False
      with Cons.prems have "s \<in> set ss" by simp
      moreover from Cons.prems(1) have "sorted_wrt (\<lambda>a b. span_len b \<le> span_len a) ss" by simp
      moreover from Cons.prems(1,2)
      have "\<forall>a \<in> set (accepted @ [x]). \<forall>s \<in> set ss. span_len s \<le> span_len a"
        by auto
      ultimately show ?thesis using Cons.IH [of "accepted @ [x]"] False by simp
    qed
  qed
qed

lemma set_py_sorted_desc: "set (py_sorted_desc f xs) = set xs"
  by (simp add: py_sorted_desc_def)

lemma py_sorted_desc_descending:
  "sorted_wrt (\<lambda>a b. f b \<le> f a) (py_sorted_desc f xs)"
proof -
  have "sorted (map f (sort_key f (rev xs)))" by simp
  then have "sorted_wrt (\<lambda>a b. f a \<le> f b) (sort_key f (rev xs))"
    by (simp add: sorted_wrt_map)
  then show ?thesis
    by (simp add: py_sorted_desc_def sorted_wrt_rev)
qed

lemma filter_spans_pair:
  assumes "span_len b < span_len a \<or> span_len b = span_len a"
  shows "py_sorted_desc span_len [a, b] = [a, b]"
  using assms by (auto simp: py_sorted_desc_def)

lemma filter_spans_pair_swap:
  assumes "span_len b < span_len a"
  shows "py_sorted_desc span_len [b, a] = [a, b]"
  using assms by (auto simp: py_sorted_desc_def)

lemma insort_key_filter:
  "sorted (map f ys) \<Longrightarrow>
   insort_key f x ys = filter (\<lambda>y. f y < f x) ys @ x # filter (\<lambda>y. f x \<le> f y) ys"
proof (induction ys)
  case Nil
  show ?case by simp
next
  case (Cons y ys)
  show ?case
  proof (cases "f x \<le> f y")
    case True
    with Cons.prems have all: "\<forall>z \<in> set (y # ys). f x \<le> f z" by auto
    then have "filter (\<lambda>y. f y < f x) (y # ys) = []"
      by (auto simp: filter_empty_conv)
    moreover from all have "filter (\<lambda>z. f x \<le> f z) (y # ys) = y # ys"
      by (simp add: filter_id_conv)
    ultimately show ?thesis using True by simp
  next
    case False
    with Cons show ?thesis by simp
  qed
qed

lemma py_sorted_desc_snoc:
  "py_sorted_desc f (xs @ [x]) =
     filter (\<lambda>y. f x \<le> f y) (py_sorted_desc f xs) @ x # filter (\<lambda>y. f y < f x) (py_sorted_desc f xs)"
proof -
  have "sorted (map f (sort_key f (rev xs)))" by simp
  from insort_key_filter [OF this, of x]
  show ?thesis by (simp add: py_sorted_desc_def rev_filter)
qed

lemma py_sorted_desc_position:
  "\<exists>ps qs. py_sorted_desc f (us @ s # vs) = ps @ s # qs \<and>
     (\<forall>a. a \<in> set ps \<longleftrightarrow> (a \<in> set us \<union> set vs \<and> f s < f a) \<or> (a \<in> set us \<and> f a = f s))"
proof (induction vs rule: rev_induct)
  case Nil
  let ?D = "py_sorted_desc f us"
  have eq: "py_sorted_desc f (us @ [s]) =
     filter (\<lambda>y. f s \<le> f y) ?D @ s # filter (\<lambda>y. f y < f s) ?D"
    by (rule py_sorted_desc_snoc)
  have mem: "\<forall>a. a \<in> set (filter (\<lambda>y. f s \<le> f y) ?D)
      \<longleftrightarrow> (a \<in> set us \<union> set [] \<and> f s < f a) \<or> (a \<in> set us \<and> f a = f s)"
    by (auto simp: set_py_sorted_desc)
  show ?case
  proof (intro exI conjI)
    show "py_sorted_desc f (us @ [s]) =
      filter (\<lambda>y. f s \<le> f y) ?D @ s # filter (\<lambda>y. f y < f s) ?D" by (rule eq)
    show "\<forall>a. a \<in> set (filter (\<lambda>y. f s \<le> f y) ?D)
      \<longleftrightarrow> (a \<in> set us \<union> set [] \<and> f s < f a) \<or> (a \<in> set us \<and> f a = f s)" by (rule mem)
  qed
next
  case (snoc v vs)
  then obtain ps qs where D: "py_sorted_desc f (us @ s # vs) = ps @ s # qs"
    and ps: "\<And>a. a \<in> set ps \<longleftrightarrow> (a \<in> set us \<union> set vs \<and> f s < f a) \<or> (a \<in> set us \<and> f a = f s)"
    by blast
  have "sorted_wrt (\<lambda>a b. f b \<le> f a) (ps @ s # qs)"
    using py_sorted_desc_descending [of f "us @ s # vs"] by (simp only: D)
  then have qs: "\<forall>b \<in> set qs. f b \<le> f s"
    by (simp add: sorted_wrt_append)
  have ps_ge: "\<forall>a \<in> set ps. f s \<le> f a"
  proof
    fix a assume "a \<in> set ps"
    then have "f s < f a \<or> f a = f s" using ps [of a] by blast
    then show "f s \<le> f a" by auto
  qed
  have step: "py_sorted_desc f ((us @ s # vs) @ [v]) =
     filter (\<lambda>y. f v \<le> f y) (ps @ s # qs) @ v # filter (\<lambda>y. f y < f v) (ps @ s # qs)"
    unfolding py_sorted_desc_snoc [of f "us @ s # vs" v] D ..
  show ?case
  proof (cases "f v \<le> f s")
    case True
    with ps_ge have "\<forall>a \<in> set ps. f v \<le> f a" by auto
    then have keep: "filter (\<lambda>y. f v \<le> f y) ps = ps" by (simp add: filter_id_conv)
    have eq: "py_sorted_desc f (us @ s # vs @ [v]) =
        ps @ s # (filter (\<lambda>y. f v \<le> f y) qs @ v # filter (\<lambda>y. f y < f v) (ps @ s # qs))"
      using True step by (simp add: keep)
    have mem: "\<forall>a. a \<in> set ps
        \<longleftrightarrow> (a \<in> set us \<union> set (vs @ [v]) \<and> f s < f a) \<or> (a \<in> set us \<and> f a = f s)"
    proof
      fix a
      from True have "\<not> f s < f v" by simp
      then show "a \<in> set ps
        \<longleftrightarrow> (a \<in> set us \<union> set (vs @ [v]) \<and> f s < f a) \<or> (a \<in> set us \<and> f a = f s)"
        unfolding ps [of a] by auto
    qed
    show ?thesis
    proof (intro exI conjI)
      show "py_sorted_desc f (us @ s # vs @ [v]) =
        ps @ s # (filter (\<lambda>y. f v \<le> f y) qs @ v # filter (\<lambda>y. f y < f v) (ps @ s # qs))"
        by (rule eq)
      show "\<forall>a. a \<in> set ps
        \<longleftrightarrow> (a \<in> set us \<union> set (vs @ [v]) \<and> f s < f a) \<or> (a \<in> set us \<and> f a = f s)"
        by (rule mem)
    qed
  next
    case False
    then have lt: "f s < f v" by simp
    with qs have "\<forall>b \<in> set qs. \<not> f v \<le> f b" by auto
    then have drop: "filter (\<lambda>y. f v \<le> f y) qs = []" by (simp add: filter_empty_conv)
    let ?P = "filter (\<lambda>y. f v \<le> f y) ps @ v # filter (\<lambda>y. f y < f v) ps"
    have eq: "py_sorted_desc f (us @ s # vs @ [v]) = ?P @ s # filter (\<lambda>y. f y < f v) qs"
      using lt step by (simp add: drop)
    have set_P: "set ?P = insert v (set ps)" by auto
    have mem: "\<forall>a. a \<in> set ?P
        \<longleftrightarrow> (a \<in> set us \<union> set (vs @ [v]) \<and> f s < f a) \<or> (a \<in> set us \<and> f a = f s)"
    proof
      fix a
      show "a \<in> set ?P
        \<longleftrightarrow> (a \<in> set us \<union> set (vs @ [v]) \<and> f s < f a) \<or> (a \<in> set us \<and> f a = f s)"
        unfolding set_P insert_iff ps [of a] using lt by auto
    qed
    show ?thesis
    proof (intro exI conjI)
      show "py_sorted_desc f (us @ s # vs @ [v]) = ?P @ s # filter (\<lambda>y. f y < f v) qs"
        by (rule eq)
      show "\<forall>a. a \<in> set ?P
        \<longleftrightarrow> (a \<in> set us \<union> set (vs @ [v]) \<and> f s < f a) \<or> (a \<in> set us \<and> f a = f s)"
        by (rule mem)
    qed
  qed
qed

lemma accept_spans_append:
  "accept_spans accepted (ps @ rest) = accept_spans (accept_spans accepted ps) rest"
  by (induction ps arbitrary: accepted) simp_all

lemma disjoint_members:
  assumes "sorted_wrt (\<lambda>a b. \<not> overlaps a b) xs" "a \<in> set xs" "b \<in> set xs" "a \<noteq> b"
  shows "\<not> overlaps a b"
proof -
  from assms(2,3) obtain i j where ij: "i < length xs" "j < length xs" "xs ! i = a" "xs ! j = b"
    by (auto simp: in_set_conv_nth)
  with assms(4) have "i \<noteq> j" by auto
  then consider "i < j" | "j < i" by linarith
  then show ?thesis
  proof cases
    case 1
    with assms(1) ij show ?thesis by (auto simp: sorted_wrt_iff_nth_less)
  next
    case 2
    with assms(1) ij have "\<not> overlaps b a" by (auto simp: sorted_wrt_iff_nth_less)
    then show ?thesis by (simp add: overlaps_sym)
  qed
qed

lemma accept_spans_position:
  assumes "xs = ps @ x # qs"
  shows "(x \<in> set (accept_spans [] xs)) =
         (\<not> (\<exists>a \<in> set (accept_spans [] xs). a \<in> set ps \<and> a \<noteq> x \<and> overlaps x a))"
proof
  assume x: "x \<in> set (accept_spans [] xs)"
  have "sorted_wrt (\<lambda>a b. \<not> overlaps a b) (accept_spans [] xs)"
    by (rule accept_spans_disjoint) simp
  from disjoint_members [OF this x] show "\<not> (\<exists>a \<in> set (accept_spans [] xs). a \<in> set ps \<and> a \<noteq> x \<and> overlaps x a)"
    by blast
next
  assume none: "\<not> (\<exists>a \<in> set (accept_spans [] xs). a \<in> set ps \<and> a \<noteq> x \<and> overlaps x a)"
  let ?A = "accept_spans [] ps"
  have res: "accept_spans [] xs = accept_spans ?A (x # qs)"
    by (simp add: assms accept_spans_append)
  have A_ps: "set ?A \<subseteq> set ps" using accept_spans_subset [of "[]" ps] by simp
  have A_res: "set ?A \<subseteq> set (accept_spans [] xs)"
    unfolding res by (rule accept_spans_mono)
  show "x \<in> set (accept_spans [] xs)"
  proof (rule ccontr)
    assume nx: "x \<notin> set (accept_spans [] xs)"
    have "list_ex (overlaps x) ?A"
    proof (rule ccontr)
      assume "\<not> list_ex (overlaps x) ?A"
      then have "accept_spans [] xs = accept_spans (?A @ [x]) qs" by (simp add: res)
      with accept_spans_mono [of "?A @ [x]" qs] have "x \<in> set (accept_spans [] xs)" by auto
      with nx show False by simp
    qed
    then obtain a where a: "a \<in> set ?A" "overlaps x a" by (auto simp: list_ex_iff)
    with A_ps A_res nx have "a \<in> set (accept_spans [] xs) \<and> a \<in> set ps \<and> a \<noteq> x" by auto
    with a(2) none show False by blast
  qed
qed

lemma filter_spans_priority:
  assumes "spans = us @ s # vs"
  shows "(s \<in> set (filter_spans spans)) =
         (\<not> (\<exists>a \<in> set (filter_spans spans). a \<noteq> s \<and> overlaps s a \<and>
               (span_len s < span_len a \<or> (span_len a = span_len s \<and> a \<in> set us))))"
proof -
  from py_sorted_desc_position [of span_len us s vs] obtain ps qs where
    D: "py_sorted_desc span_len spans = ps @ s # qs"
    and ps: "\<And>a. a \<in> set ps \<longleftrightarrow>
      (a \<in> set us \<union> set vs \<and> span_len s < span_len a) \<or> (a \<in> set us \<and> span_len a = span_len s)"
    unfolding assms by blast
  let ?R = "filter_spans spans"
  have sub: "set ?R \<subseteq> set us \<union> {s} \<union> set vs"
    using accept_spans_subset [of "[]" "py_sorted_desc span_len spans"]
    by (auto simp: filter_spans_def set_py_sorted_desc assms)
  have pos: "(s \<in> set ?R) = (\<not> (\<exists>a \<in> set ?R. a \<in> set ps \<and> a \<noteq> s \<and> overlaps s a))"
    unfolding filter_spans_def by (rule accept_spans_position [OF D])
  have "(\<exists>a \<in> set ?R. a \<in> set ps \<and> a \<noteq> s \<and> overlaps s a)
      = (\<exists>a \<in> set ?R. a \<noteq> s \<and> overlaps s a \<and>
               (span_len s < span_len a \<or> (span_len a = span_len s \<and> a \<in> set us)))"
  proof (rule bex_cong [OF refl])
    fix a assume "a \<in> set ?R"
    with sub have a: "a \<in> set us \<union> {s} \<union> set vs" by blast
    show "(a \<in> set ps \<and> a \<noteq> s \<and> overlaps s a)
        = (a \<noteq> s \<and> overlaps s a \<and>
             (span_len s < span_len a \<or> (span_len a = span_len s \<and> a \<in> set us)))"
      unfolding ps [of a] using a by auto
  qed
  with pos show ?thesis by (simp only:)
qed

text \<open>
  C4. Overlap resolution returns candidate spans only, and no two of the returned
  spans share a token. For every list of candidates in discovery order, a candidate
  is returned exactly when it overlaps no other returned span that is longer, or
  equally long and discovered earlier: acceptance is greedy, longest first, and equal
  lengths are taken in discovery order. So a candidate that is not returned overlaps
  a returned span that is at least as long; of two overlapping candidates of equal
  length, the one discovered first is returned; of two non-empty candidates at the
  same start offset, exactly the longer one is returned, in whichever order they were
  discovered.
\<close>

theorem filter_spans_non_overlapping:
  "set (filter_spans spans) \<subseteq> set spans \<and>
   (\<forall>i < length (filter_spans spans). \<forall>j < length (filter_spans spans).
      i \<noteq> j \<longrightarrow> \<not> overlaps (filter_spans spans ! i) (filter_spans spans ! j)) \<and>
   (\<forall>us s vs. spans = us @ s # vs \<longrightarrow>
      (s \<in> set (filter_spans spans)) =
      (\<not> (\<exists>a \<in> set (filter_spans spans). a \<noteq> s \<and> overlaps s a \<and>
            (span_len s < span_len a \<or> (span_len a = span_len s \<and> a \<in> set us))))) \<and>
   (\<forall>s \<in> set spans. s \<notin> set (filter_spans spans) \<longrightarrow>
      (\<exists>a \<in> set (filter_spans spans). overlaps s a \<and> span_len s \<le> span_len a)) \<and>
   (overlaps a b \<and> span_len a = span_len b \<longrightarrow> filter_spans [a, b] = [a]) \<and>
   (span_start a = span_start b \<and> span_len b < span_len a \<and> 0 < span_len b \<longrightarrow>
      filter_spans [a, b] = [a] \<and> filter_spans [b, a] = [a])"
proof (intro conjI allI impI ballI)
  show "set (filter_spans spans) \<subseteq> set spans"
    using accept_spans_subset [of "[]" "py_sorted_desc span_len spans"]
    by (simp add: filter_spans_def set_py_sorted_desc)
next
  fix i j assume ij: "i < length (filter_spans spans)" "j < length (filter_spans spans)" "i \<noteq> j"
  have sw: "sorted_wrt (\<lambda>a b. \<not> overlaps a b) (filter_spans spans)"
    unfolding filter_spans_def by (rule accept_spans_disjoint) simp
  show "\<not> overlaps (filter_spans spans ! i) (filter_spans spans ! j)"
  proof (cases "i < j")
    case True
    with sw ij show ?thesis by (simp add: sorted_wrt_iff_nth_less)
  next
    case False
    with ij have "j < i" by simp
    with sw ij have "\<not> overlaps (filter_spans spans ! j) (filter_spans spans ! i)"
      by (simp add: sorted_wrt_iff_nth_less)
    then show ?thesis by (simp add: overlaps_sym)
  qed
next
  fix us s vs assume "spans = us @ s # vs"
  then show "(s \<in> set (filter_spans spans)) =
      (\<not> (\<exists>a \<in> set (filter_spans spans). a \<noteq> s \<and> overlaps s a \<and>
            (span_len s < span_len a \<or> (span_len a = span_len s \<and> a \<in> set us))))"
    by (rule filter_spans_priority)
next
  fix s assume "s \<in> set spans" "s \<notin> set (filter_spans spans)"
  then show "\<exists>a \<in> set (filter_spans spans). overlaps s a \<and> span_len s \<le> span_len a"
    using accept_spans_greedy [of "py_sorted_desc span_len spans" "[]" s]
    by (simp add: filter_spans_def py_sorted_desc_descending set_py_sorted_desc)
next
  assume "overlaps a b \<and> span_len a = span_len b"
  then show "filter_spans [a, b] = [a]"
    by (simp add: filter_spans_def filter_spans_pair overlaps_sym [of b a])
next
  assume h: "span_start a = span_start b \<and> span_len b < span_len a \<and> 0 < span_len b"
  then have ov: "overlaps b a" by (auto simp: overlaps_def span_len_def)
  from h ov show "filter_spans [a, b] = [a]"
    by (simp add: filter_spans_def filter_spans_pair)
  from h ov show "filter_spans [b, a] = [a]"
    by (simp add: filter_spans_def filter_spans_pair_swap)
qed

lemma demo_filter_spans_ties:
  "filter_spans [span_new_york, span_the_new, span_york_times] = [span_new_york]"
  "filter_spans [span_the_new, span_new_york, span_york_times] = [span_the_new, span_york_times]"
  "filter_spans [span_york_times, span_new_york, span_the_new, span_new_york_times]
     = [span_new_york_times]"
  by (simp_all add: filter_spans_def py_sorted_desc_def span_new_york_times_def span_new_york_def
      span_york_times_def span_the_new_def span_len_def overlaps_def)

theorem filter_spans_non_overlapping_witness:
  "span_start span_new_york_times = span_start span_new_york \<and>
   span_len span_new_york < span_len span_new_york_times \<and> 0 < span_len span_new_york \<and>
   filter_spans [span_new_york, span_new_york_times] = [span_new_york_times] \<and>
   filter_spans [span_new_york_times, span_new_york] = [span_new_york_times] \<and>
   span_new_york \<in> set [span_new_york, span_new_york_times] \<and>
   span_new_york \<notin> set (filter_spans [span_new_york, span_new_york_times]) \<and>
   overlaps span_new_york span_new_york_times \<and>
   overlaps span_new_york span_york_times \<and> span_len span_new_york = span_len span_york_times \<and>
   filter_spans [span_new_york, span_york_times] = [span_new_york] \<and>
   [span_new_york, span_the_new, span_york_times] = [span_new_york] @ span_the_new # [span_york_times] \<and>
   span_len span_new_york = span_len span_the_new \<and> overlaps span_the_new span_new_york \<and>
   filter_spans [span_new_york, span_the_new, span_york_times] = [span_new_york] \<and>
   filter_spans [span_the_new, span_new_york, span_york_times] = [span_the_new, span_york_times] \<and>
   filter_spans [span_york_times, span_new_york, span_the_new, span_new_york_times]
     = [span_new_york_times]"
  using
    filter_spans_non_overlapping [of "[span_new_york, span_new_york_times]"
      span_new_york_times span_new_york]
    filter_spans_non_overlapping [of "[span_new_york, span_york_times]"
      span_new_york span_york_times]
    filter_spans_non_overlapping [of "[span_new_york, span_the_new, span_york_times]"
      span_new_york span_york_times]
  by (simp add: demo_filter_spans_ties)
    (simp add: span_new_york_times_def span_new_york_def span_york_times_def span_the_new_def
      span_len_def overlaps_def filter_spans_def py_sorted_desc_def)

section \<open>Properties of response parsing\<close>

lemma map_zip_nth:
  "map f (zip xs ys) = map (\<lambda>i. f (xs ! i, ys ! i)) [0..<min (length xs) (length ys)]"
  by (rule nth_equalityI) auto











lemma demo_parse_doc_ents:
  "ents (parse_doc demo_ner_env demo_ner_task demo_ner_doc demo_response)
     = [\<lparr>span_start = 0, span_end = 1, span_label = ''PER''\<rparr>]"
  by code_simp

text \<open>
  C1 (amended). \<open>parse_responses\<close> pairs documents and responses strictly by
  position and raises no error when the two sequences differ in length: the NER task
  returns \<open>min (number of documents) (number of responses)\<close> documents, the
  \<open>i\<close>-th one annotated from the \<open>i\<close>-th response; the summarization task hands
  both sequences to the injected parser and pairs the documents with the parser's
  output in the same way. The longer sequence is cut; nothing is padded.
\<close>

theorem parse_responses_positional:
  "NER_parse_responses env t docs rs
     = Inr (map (\<lambda>i. parse_doc env t (docs ! i) (rs ! i)) [0..<min (length docs) (length rs)]) \<and>
   Summarization_parse_responses parser st sdocs srs
     = Inr (map (\<lambda>i. (sdocs ! i)\<lparr>extensions :=
                         (extensions (sdocs ! i))(field st \<mapsto> parser st sdocs srs ! i)\<rparr>)
              [0..<min (length sdocs) (length (parser st sdocs srs))])"
proof
  show "NER_parse_responses env t docs rs
     = Inr (map (\<lambda>i. parse_doc env t (docs ! i) (rs ! i)) [0..<min (length docs) (length rs)])"
    unfolding NER_parse_responses_def
    by (simp only: map_zip_nth [of _ docs rs]) simp
  show "Summarization_parse_responses parser st sdocs srs
     = Inr (map (\<lambda>i. (sdocs ! i)\<lparr>extensions :=
                         (extensions (sdocs ! i))(field st \<mapsto> parser st sdocs srs ! i)\<rparr>)
              [0..<min (length sdocs) (length (parser st sdocs srs))])"
    unfolding Summarization_parse_responses_def
    by (simp only: map_zip_nth [of _ sdocs "parser st sdocs srs"]) simp
qed

theorem parse_responses_positional_witness:
  "NER_parse_responses demo_ner_env demo_ner_task [demo_ner_doc, demo_ner_doc] [demo_response, [], []]
     = Inr [parse_doc demo_ner_env demo_ner_task demo_ner_doc demo_response,
            parse_doc demo_ner_env demo_ner_task demo_ner_doc []] \<and>
   Summarization_parse_responses (\<lambda>st ds rs. rs) demo_summarization_task [demo_doc] [''s1'', ''s2'']
     = Inr [demo_doc\<lparr>extensions := [''summary'' \<mapsto> ''s1'']\<rparr>]"
  using parse_responses_positional [of demo_ner_env demo_ner_task "[demo_ner_doc, demo_ner_doc]"
      "[demo_response, [], []]" "\<lambda>st ds rs. rs" demo_summarization_task "[demo_doc]" "[''s1'', ''s2'']"]
  by (simp add: demo_summarization_task_def demo_doc_def upt_rec [of 0] upt_rec [of 1])

text \<open>
  Two documents with one response: the call returns one annotated document, not an
  error.
\<close>

theorem parse_responses_mismatch_counterexample:
  "length [demo_ner_doc, demo_ner_doc] \<noteq> length [demo_response] \<and>
   NER_parse_responses demo_ner_env demo_ner_task [demo_ner_doc, demo_ner_doc] [demo_response]
     = Inr [parse_doc demo_ner_env demo_ner_task demo_ner_doc demo_response] \<and>
   ents (parse_doc demo_ner_env demo_ner_task demo_ner_doc demo_response)
     = [\<lparr>span_start = 0, span_end = 1, span_label = ''PER''\<rparr>]"
  by (simp add: NER_parse_responses_def demo_parse_doc_ents)





section \<open>Properties of serialization\<close>

lemma set_cfg_attrs:
  "set_cfg t cfg = t\<lparr>attrs := foldl (\<lambda>d (k, v). dict_set d k v) (attrs t) cfg\<rparr>"
proof (induction cfg arbitrary: t)
  case Nil
  show ?case by (simp add: set_cfg_def)
next
  case (Cons p cfg)
  obtain k v where p: "p = (k, v)" by (cases p)
  have "set_cfg t (p # cfg) = set_cfg (setattr t k v) cfg"
    by (simp add: set_cfg_def p)
  also have "\<dots> = t\<lparr>attrs := foldl (\<lambda>d (k, v). dict_set d k v) (attrs t) (p # cfg)\<rparr>"
    by (simp add: Cons.IH p setattr_def)
  finally show ?case .
qed

lemma foldl_dict_set_same:
  "\<forall>(k, v) \<in> set cfg. map_of d k = Some v \<Longrightarrow> foldl (\<lambda>d (k, v). dict_set d k v) d cfg = d"
  by (induction cfg) (auto simp: dict_set_same)

lemma get_cfg_items_values:
  "get_cfg_items t keys = Inr ps \<Longrightarrow>
     map fst ps = keys \<and> (\<forall>(k, v) \<in> set ps. map_of (attrs t) k = Some v)"
proof (induction keys arbitrary: ps)
  case Nil
  then show ?case by simp
next
  case (Cons key keys)
  from Cons.prems obtain v ps' where
    v: "getattr t key = Inr v" and ps': "get_cfg_items t keys = Inr ps'" and ps: "ps = (key, v) # ps'"
    by (auto split: sum.splits)
  from v have "map_of (attrs t) key = Some v"
    by (auto simp: getattr_def dict_get_def split: option.splits)
  with Cons.IH [OF ps'] ps show ?case by simp
qed

lemma get_cfg_items_total:
  "\<forall>k \<in> set keys. dict_get (attrs t) k \<noteq> None \<Longrightarrow> \<exists>ps. get_cfg_items t keys = Inr ps"
  by (induction keys) (auto simp: getattr_def split: option.splits)

lemma map_of_agree:
  assumes "\<forall>(k, v) \<in> set ps. f k = Some v"
  shows "map_of ps k = (if k \<in> fst ` set ps then f k else None)"
  using assms by (induction ps) (auto simp: image_iff)

lemma map_of_rev_distinct: "distinct (map fst xs) \<Longrightarrow> map_of (rev xs) = map_of xs"
  by (subst map_of_inject_set) (simp_all add: rev_map [symmetric])

lemma get_cfg_lookup:
  assumes "get_cfg t = Inr cfg"
  shows "map_of cfg k = (if k \<in> set (cfg_keys t) then map_of (attrs t) k else None)"
    and "\<forall>(k, v) \<in> set cfg. map_of (attrs t) k = Some v"
    and "distinct (map fst cfg)"
proof -
  from assms obtain ps where ps: "get_cfg_items t (cfg_keys t) = Inr ps" and cfg: "cfg = dict_of_pairs ps"
    by (auto simp: get_cfg_def split: sum.splits)
  note v = get_cfg_items_values [OF ps]
  from v have agree: "\<forall>(k, v) \<in> set (rev ps). map_of (attrs t) k = Some v" by simp
  have keys: "fst ` set ps = set (cfg_keys t)"
    using v by (metis set_map)
  show look: "map_of cfg k = (if k \<in> set (cfg_keys t) then map_of (attrs t) k else None)"
    using map_of_agree [OF agree, of k] by (simp add: cfg map_of_dict_of_pairs keys)
  show d: "distinct (map fst cfg)"
    using distinct_keys_dict_of_pairs [of ps] by (simp add: cfg dict_keys_def)
  show "\<forall>(k, v) \<in> set cfg. map_of (attrs t) k = Some v"
  proof (clarify)
    fix k v assume "(k, v) \<in> set cfg"
    with d have "map_of cfg k = Some v" by simp
    then have "map_of (rev ps) k = Some v" by (simp add: cfg map_of_dict_of_pairs)
    then have "(k, v) \<in> set (rev ps)" by (rule map_of_SomeD)
    with agree show "map_of (attrs t) k = Some v" by auto
  qed
qed

lemma getattr_set_cfg:
  assumes "get_cfg t = Inr cfg" and "k \<in> set (cfg_keys t)"
  shows "getattr (set_cfg t2 cfg) k = getattr t k"
proof -
  have d: "distinct (map fst cfg)" using get_cfg_lookup(3) [OF assms(1)] .
  have "map_of (rev cfg) k = map_of cfg k"
    using d by (simp add: map_of_rev_distinct)
  also have "\<dots> = map_of (attrs t) k"
    using get_cfg_lookup(1) [OF assms(1), of k] assms(2) by simp
  finally have r: "map_of (rev cfg) k = map_of (attrs t) k" .
  have "map_of (attrs (set_cfg t2 cfg)) k = (map_of (attrs t2) ++ map_of (rev cfg)) k"
    by (simp add: set_cfg_attrs foldl_dict_set_map_of)
  also have "\<dots> = (case map_of (attrs t) k of None \<Rightarrow> map_of (attrs t2) k | Some v \<Rightarrow> Some v)"
    by (simp add: map_add_def r)
  finally have m: "map_of (attrs (set_cfg t2 cfg)) k
      = (case map_of (attrs t) k of None \<Rightarrow> map_of (attrs t2) k | Some v \<Rightarrow> Some v)" .
  have "map_of (attrs t) k \<noteq> None"
  proof -
    from assms obtain ps where ps: "get_cfg_items t (cfg_keys t) = Inr ps"
      by (auto simp: get_cfg_def split: sum.splits)
    from get_cfg_items_values [OF ps] assms(2) obtain v where "(k, v) \<in> set ps"
      by (metis (no_types, opaque_lifting) imageE list.set_map prod.collapse)
    with get_cfg_items_values [OF ps] show ?thesis by auto
  qed
  with m show ?thesis by (auto simp: getattr_def dict_get_def split: option.splits)
qed

lemma set_cfg_own: "get_cfg t = Inr cfg \<Longrightarrow> set_cfg t cfg = t"
  using get_cfg_lookup(2) [of t cfg] by (simp add: set_cfg_attrs foldl_dict_set_same)

lemma to_bytes_Inr:
  "to_bytes srs pet t exclude = Inr msg \<longleftrightarrow>
     (let rest = (if ''prompt_examples'' \<in> set exclude then []
                  else [(''prompt_examples'', msgpack_dumps srs (get_prompt_examples pet t))])
      in if ''cfg'' \<in> set exclude then msg = rest
         else (\<exists>cfg. get_cfg t = Inr cfg \<and> msg = (''cfg'', json_dumps srs cfg) # rest))"
  by (auto simp: to_bytes_def Let_def split: sum.splits)

lemma from_bytes_excluded:
  "from_bytes srs pet t2 msg exclude =
     (let t3 = (if ''cfg'' \<in> set exclude then t2
                else case dict_get msg ''cfg'' of None \<Rightarrow> t2
                     | Some b \<Rightarrow> set_cfg t2 (json_loads srs b))
      in if ''prompt_examples'' \<in> set exclude then t3
         else case dict_get msg ''prompt_examples'' of None \<Rightarrow> t3
              | Some b \<Rightarrow> set_prompt_examples pet t3 (msgpack_loads srs b))"
  by (simp add: from_bytes_def Let_def split: option.splits)

lemma attrs_set_prompt_examples [simp]: "attrs (set_prompt_examples pet t ds) = attrs t"
  by (simp add: set_prompt_examples_def)

lemma prompt_examples_set_cfg [simp]: "prompt_examples (set_cfg t cfg) = prompt_examples t"
  by (simp add: set_cfg_attrs)

lemma getattr_set_prompt_examples [simp]:
  "getattr (set_prompt_examples pet t ds) k = getattr t k"
  by (simp add: getattr_def)

text \<open>
  C8. Let the codecs be lossless (JSON on the configuration values, msgpack and the
  example type on the examples). Serialization succeeds whenever the configuration
  is excluded or every configuration key names an attribute. If it succeeds, then
  deserializing the result with the same exclusion set into the task itself gives
  the task back unchanged; deserializing it into any other task gives that task
  every configuration field of the original when the configuration is not excluded,
  and leaves that task's attributes as they were, with no configuration in the
  serialized data, when it is excluded; the same holds for the examples.
\<close>

theorem to_bytes_from_bytes_round_trip:
  assumes json: "\<forall>cfg. json_loads srs (json_dumps srs cfg) = cfg"
    and msgpack: "\<forall>ds. msgpack_loads srs (msgpack_dumps srs ds) = ds"
    and example: "\<forall>e. parse_obj pet (to_dict pet e) = e"
  shows "(''cfg'' \<in> set exclude \<or> (\<forall>k \<in> set (cfg_keys t). dict_get (attrs t) k \<noteq> None)
            \<longrightarrow> (\<exists>msg. to_bytes srs pet t exclude = Inr msg)) \<and>
         (\<forall>msg. to_bytes srs pet t exclude = Inr msg \<longrightarrow>
            from_bytes srs pet t msg exclude = t \<and>
            (''cfg'' \<notin> set exclude \<longrightarrow>
               (\<forall>k \<in> set (cfg_keys t). getattr (from_bytes srs pet t2 msg exclude) k = getattr t k)) \<and>
            (''cfg'' \<in> set exclude \<longrightarrow>
               dict_get msg ''cfg'' = None \<and> attrs (from_bytes srs pet t2 msg exclude) = attrs t2) \<and>
            (''prompt_examples'' \<notin> set exclude \<longrightarrow>
               prompt_examples (from_bytes srs pet t2 msg exclude) = prompt_examples t) \<and>
            (''prompt_examples'' \<in> set exclude \<longrightarrow>
               dict_get msg ''prompt_examples'' = None \<and>
               prompt_examples (from_bytes srs pet t2 msg exclude) = prompt_examples t2))"
proof (intro conjI allI impI)
  assume "''cfg'' \<in> set exclude \<or> (\<forall>k \<in> set (cfg_keys t). dict_get (attrs t) k \<noteq> None)"
  then show "\<exists>msg. to_bytes srs pet t exclude = Inr msg"
  proof
    assume "''cfg'' \<in> set exclude"
    then show ?thesis by (simp add: to_bytes_Inr)
  next
    assume "\<forall>k \<in> set (cfg_keys t). dict_get (attrs t) k \<noteq> None"
    from get_cfg_items_total [OF this] obtain ps where "get_cfg_items t (cfg_keys t) = Inr ps" ..
    then have "get_cfg t = Inr (dict_of_pairs ps)" by (simp add: get_cfg_def)
    then show ?thesis
      by (cases "''cfg'' \<in> set exclude") (auto simp: to_bytes_Inr Let_def)
  qed
next
  fix msg assume ser: "to_bytes srs pet t exclude = Inr msg"
  have pes: "map (parse_obj pet) (map (to_dict pet) (prompt_examples t)) = prompt_examples t"
    using example by (simp add: map_idI)
  show "from_bytes srs pet t msg exclude = t"
  proof (cases "''cfg'' \<in> set exclude")
    case True
    with ser show ?thesis
      using msgpack pes
      by (auto simp: to_bytes_Inr from_bytes_excluded Let_def dict_get_def
          set_prompt_examples_def get_prompt_examples_def)
  next
    case False
    with ser obtain cfg where cfg: "get_cfg t = Inr cfg" by (auto simp: to_bytes_Inr Let_def)
    from False ser cfg show ?thesis
      using json msgpack pes set_cfg_own [OF cfg]
      by (auto simp: to_bytes_Inr from_bytes_excluded Let_def dict_get_def
          set_prompt_examples_def get_prompt_examples_def)
  qed
  show "\<forall>k \<in> set (cfg_keys t). getattr (from_bytes srs pet t2 msg exclude) k = getattr t k"
    if "''cfg'' \<notin> set exclude"
  proof
    fix k assume k: "k \<in> set (cfg_keys t)"
    from that ser obtain cfg where cfg: "get_cfg t = Inr cfg"
      and m: "dict_get msg ''cfg'' = Some (json_dumps srs cfg)"
      by (auto simp: to_bytes_Inr Let_def dict_get_def split: if_splits)
    from getattr_set_cfg [OF cfg k, of t2] that m json
    show "getattr (from_bytes srs pet t2 msg exclude) k = getattr t k"
      by (simp add: from_bytes_excluded Let_def split: option.splits)
  qed
  show "dict_get msg ''cfg'' = None" if "''cfg'' \<in> set exclude"
    using that ser by (auto simp: to_bytes_Inr Let_def dict_get_def split: if_splits)
  show "attrs (from_bytes srs pet t2 msg exclude) = attrs t2" if "''cfg'' \<in> set exclude"
    using that by (simp add: from_bytes_excluded Let_def split: option.splits)
  show "prompt_examples (from_bytes srs pet t2 msg exclude) = prompt_examples t"
    if "''prompt_examples'' \<notin> set exclude"
  proof -
    from that ser have "dict_get msg ''prompt_examples''
        = Some (msgpack_dumps srs (get_prompt_examples pet t))"
      by (auto simp: to_bytes_Inr Let_def dict_get_def split: if_splits)
    with that msgpack pes show ?thesis
      by (simp add: from_bytes_excluded Let_def set_prompt_examples_def get_prompt_examples_def
          split: option.splits)
  qed
  show "dict_get msg ''prompt_examples'' = None" if "''prompt_examples'' \<in> set exclude"
    using that ser by (auto simp: to_bytes_Inr Let_def dict_get_def split: if_splits)
  show "prompt_examples (from_bytes srs pet t2 msg exclude) = prompt_examples t2"
    if "''prompt_examples'' \<in> set exclude"
    using that by (simp add: from_bytes_excluded Let_def split: option.splits)
qed

lemma demo_to_bytes:
  "to_bytes demo_srsly demo_example_type demo_task []
     = Inr [(''cfg'', JsonBytes [(''_template'', PyStr ''tpl''), (''_n'', PyInt 3)]),
            (''prompt_examples'', MsgpackBytes [7])]"
  "to_bytes demo_srsly demo_example_type demo_task [''cfg'']
     = Inr [(''prompt_examples'', MsgpackBytes [7])]"
  by (simp_all add: to_bytes_def get_cfg_def getattr_def dict_get_def dict_of_pairs_def
      demo_task_def demo_srsly_def demo_example_type_def get_prompt_examples_def)

theorem to_bytes_from_bytes_round_trip_witness:
  "(\<forall>cfg. json_loads demo_srsly (json_dumps demo_srsly cfg) = cfg) \<and>
   (\<forall>ds. msgpack_loads demo_srsly (msgpack_dumps demo_srsly ds) = ds) \<and>
   (\<forall>e. parse_obj demo_example_type (to_dict demo_example_type e) = e) \<and>
   to_bytes demo_srsly demo_example_type demo_task []
     = Inr [(''cfg'', JsonBytes [(''_template'', PyStr ''tpl''), (''_n'', PyInt 3)]),
            (''prompt_examples'', MsgpackBytes [7])] \<and>
   from_bytes demo_srsly demo_example_type demo_target
     [(''cfg'', JsonBytes [(''_template'', PyStr ''tpl''), (''_n'', PyInt 3)]),
      (''prompt_examples'', MsgpackBytes [7])] []
     = demo_target\<lparr>prompt_examples := [7],
                    attrs := [(''_template'', PyStr ''tpl''), (''_n'', PyInt 3)]\<rparr> \<and>
   to_bytes demo_srsly demo_example_type demo_task [''cfg'']
     = Inr [(''prompt_examples'', MsgpackBytes [7])] \<and>
   from_bytes demo_srsly demo_example_type demo_target [(''prompt_examples'', MsgpackBytes [7])] [''cfg'']
     = demo_target\<lparr>prompt_examples := [7]\<rparr>"
  using to_bytes_from_bytes_round_trip [where srs = demo_srsly and pet = demo_example_type
      and exclude = "[]" and t = demo_task and ?t2.0 = demo_target]
  by (simp add: demo_to_bytes)
    (simp add: from_bytes_def set_cfg_def setattr_def set_prompt_examples_def dict_get_def
      demo_target_def demo_srsly_def demo_example_type_def)

end
